theory Spec2Isabelle
  imports Main "HOL-Library.Word" "HOL-Library.AList"
begin

section \<open>Data model\<close>

text \<open>
  The Go package \<open>mvcc\<close> is embedded with explicit state passing.
  \<^item> \<open>uint64\<close> counters and ids are \<open>64 word\<close>; \<open>atomic.Uint64.Add(1)\<close> wraps.
  \<^item> \<open>atomic.Int64\<close> (the refcount) is a \<open>64 word\<close> read as two's complement:
    \<open>refCount.Load() > 0\<close> is \<open>0 <s refCount\<close>.
  \<^item> \<open>*version\<close> pointers are addresses into a heap of version objects (a list; a new
    object gets the next index). Objects are never freed in the model: the Go runtime
    frees them only once nothing points to them.
  \<^item> \<open>version.data\<close> is only looked up and cloned, so it is a map \<open>'k \<rightharpoonup> _\<close>;
    \<open>Tx.writes\<close> and \<open>activeTxs\<close> are iterated with \<open>range\<close>, so they are association
    lists with distinct keys; the list order stands for the order in which Go happens
    to iterate.
  \<^item> \<open>context.Context\<close> is reduced to what \<open>ctx.Err()\<close> returns.
\<close>

type_synonym uint64 = "64 word"
type_synonym int64 = "64 word"
type_synonym addr = nat

text \<open>\<open>versionedValue\<close> (fields \<open>value\<close>, \<open>writerTxID\<close>).\<close>

record 'v versionedValue =
  vvalue :: 'v
  writerTxID :: uint64

text \<open>\<open>version\<close> (fields \<open>id\<close>, \<open>data\<close>, \<open>refCount\<close>).\<close>

record ('k, 'v) version =
  v_id :: uint64
  data :: "'k \<rightharpoonup> 'v versionedValue"
  refCount :: int64

datatype txState = txActive | txCommitted | txRolledBack

text \<open>The two values \<open>ctx.Err()\<close> can return besides \<open>nil\<close>.\<close>

datatype ctxError = Canceled | DeadlineExceeded

text \<open>
  The sentinel errors of \<open>tx.go\<close>. \<open>ErrTxCanceled\<close> is always returned wrapping the
  context's error (\<open>fmt.Errorf("%w: %w", ErrTxCanceled, err)\<close>).
\<close>

datatype error = ErrConflict | ErrTxDone | ErrDeadlock | ErrTxCanceled ctxError

text \<open>
  \<open>Tx\<close> (fields \<open>id\<close>, \<open>snapshot\<close>, \<open>writes\<close>, \<open>readSet\<close>, \<open>state\<close>, \<open>ctx\<close>/\<open>cancel\<close>).
  \<open>ctxErr\<close> is the value of \<open>tx.ctx.Err()\<close>: \<open>None\<close> for \<open>nil\<close>. The back pointer \<open>db\<close>
  is the store argument of each operation.
\<close>

record ('k, 'v) Tx =
  tx_id :: uint64
  snapshot :: addr
  writes :: "('k \<times> 'v versionedValue) list"
  readSet :: "'k set"
  state :: txState
  ctxErr :: "ctxError option"

text \<open>\<open>txMeta\<close> (fields \<open>id\<close>, \<open>waitFor\<close>; the mutex is not modelled).\<close>

record txMeta =
  meta_id :: uint64
  waitFor :: uint64

text \<open>\<open>MVCCMap\<close>, without the mutexes, the logger and the goroutine handles.\<close>

record ('k, 'v) MVCCMap =
  heap :: "('k, 'v) version list"
  current :: addr
  nextTxID :: uint64
  nextVersionID :: uint64
  activeTxs :: "(uint64 \<times> txMeta) list"
  versions :: "addr list"

section \<open>version.go\<close>

definition newVersion :: "uint64 \<Rightarrow> ('k \<rightharpoonup> 'v versionedValue) \<Rightarrow> ('k, 'v) version" where
  "newVersion i d = \<lparr>v_id = i, data = d, refCount = 0\<rparr>"

text \<open>\<open>maps.Clone\<close>: a fresh map with the same entries.\<close>

definition clone :: "('k, 'v) version \<Rightarrow> ('k \<rightharpoonup> 'v versionedValue)" where
  "clone v = data v"

text \<open>\<open>v.refCount.Add(d)\<close> on the object at address \<open>a\<close>.\<close>

definition refCount_Add :: "addr \<Rightarrow> int64 \<Rightarrow> ('k, 'v) MVCCMap \<Rightarrow> ('k, 'v) MVCCMap" where
  "refCount_Add a d s =
     s\<lparr>heap := (heap s)[a := (heap s ! a)\<lparr>refCount := refCount (heap s ! a) + d\<rparr>]\<rparr>"

section \<open>map.go\<close>

definition NewMVCCMap :: "('k, 'v) MVCCMap" where
  "NewMVCCMap =
     \<lparr>heap = [newVersion 0 Map.empty], current = 0, nextTxID = 0, nextVersionID = 0,
      activeTxs = [], versions = [0]\<rparr>"

text \<open>
  \<open>BeginTx(ctx)\<close>. The argument is \<open>ctx.Err()\<close> of the caller's context at the call: the
  child context starts with the same error.
\<close>

definition BeginTx ::
  "ctxError option \<Rightarrow> ('k, 'v) MVCCMap \<Rightarrow> ('k, 'v) Tx \<times> ('k, 'v) MVCCMap" where
  "BeginTx parent s =
     (let txID = nextTxID s + 1;
          snap = current s;
          s1 = refCount_Add snap 1 (s\<lparr>nextTxID := txID\<rparr>);
          tx = \<lparr>tx_id = txID, snapshot = snap, writes = [], readSet = {},
                state = txActive, ctxErr = parent\<rparr>
      in (tx, s1\<lparr>activeTxs :=
                   AList.update txID \<lparr>meta_id = txID, waitFor = 0\<rparr> (activeTxs s1)\<rparr>))"

text \<open>
  The body of the conflict loop of \<open>commit\<close> for one key of \<open>tx.writes\<close>: \<open>True\<close> where
  the loop returns \<open>ErrConflict\<close>.
\<close>

definition conflict_at ::
  "('k, 'v) version \<Rightarrow> ('k, 'v) version \<Rightarrow> 'k \<Rightarrow> bool" where
  "conflict_at cur snap key =
     (case data cur key of
        None \<Rightarrow> False
      | Some vv \<Rightarrow>
          writerTxID vv \<noteq> 0 \<and> v_id snap < v_id cur \<and>
          (case data snap key of
             None \<Rightarrow> True
           | Some snapVV \<Rightarrow> writerTxID snapVV \<noteq> writerTxID vv))"

text \<open>The loop \<open>for key := range tx.writes\<close>, leaving at the first conflict.\<close>

fun conflict_loop ::
  "('k, 'v) version \<Rightarrow> ('k, 'v) version \<Rightarrow> ('k \<times> 'v versionedValue) list \<Rightarrow> bool" where
  "conflict_loop cur snap [] = False"
| "conflict_loop cur snap (kv # ws) =
     (if conflict_at cur snap (fst kv) then True else conflict_loop cur snap ws)"

text \<open>The loop \<open>for k, vv := range tx.writes { newData[k] = vv }\<close>.\<close>

fun overlay ::
  "('k \<times> 'v versionedValue) list \<Rightarrow> ('k \<rightharpoonup> 'v versionedValue) \<Rightarrow> ('k \<rightharpoonup> 'v versionedValue)" where
  "overlay [] newData = newData"
| "overlay (kv # ws) newData = overlay ws (newData(fst kv \<mapsto> snd kv))"

text \<open>\<open>MVCCMap.commit(tx)\<close>, the critical section.\<close>

definition commit ::
  "('k, 'v) Tx \<Rightarrow> ('k, 'v) MVCCMap \<Rightarrow> error option \<times> ('k, 'v) MVCCMap" where
  "commit tx s =
     (let cur = heap s ! current s in
      if conflict_loop cur (heap s ! snapshot tx) (writes tx) then (Some ErrConflict, s)
      else
        let newData = overlay (writes tx) (clone cur);
            newVID = nextVersionID s + 1;
            newVer = newVersion newVID newData;
            a = length (heap s)
        in (None, s\<lparr>heap := heap s @ [newVer], current := a, nextVersionID := newVID,
                     versions := versions s @ [a]\<rparr>))"

definition unregisterTx :: "uint64 \<Rightarrow> ('k, 'v) MVCCMap \<Rightarrow> ('k, 'v) MVCCMap" where
  "unregisterTx txID s = s\<lparr>activeTxs := AList.delete txID (activeTxs s)\<rparr>"

definition VersionCount :: "('k, 'v) MVCCMap \<Rightarrow> nat" where
  "VersionCount s = length (versions s)"

section \<open>tx.go\<close>

definition checkActive :: "('k, 'v) Tx \<Rightarrow> error option" where
  "checkActive tx = (if state tx \<noteq> txActive then Some ErrTxDone else None)"

text \<open>\<open>tx.cancel()\<close>: the context's error becomes \<open>Canceled\<close> unless it already has one.\<close>

definition cancel :: "('k, 'v) Tx \<Rightarrow> ('k, 'v) Tx" where
  "cancel tx = (case ctxErr tx of None \<Rightarrow> tx\<lparr>ctxErr := Some Canceled\<rparr> | Some e \<Rightarrow> tx)"

text \<open>
  The three releases that \<open>Commit\<close> defers and \<open>Rollback\<close> runs inline:
  \<open>tx.cancel()\<close>, \<open>tx.db.unregisterTx(tx.id)\<close>, \<open>tx.snapshot.refCount.Add(-1)\<close>.
\<close>

definition release ::
  "('k, 'v) Tx \<Rightarrow> ('k, 'v) MVCCMap \<Rightarrow> ('k, 'v) Tx \<times> ('k, 'v) MVCCMap" where
  "release tx s = (cancel tx, refCount_Add (snapshot tx) (- 1) (unregisterTx (tx_id tx) s))"

text \<open>\<open>Get\<close> returns \<open>(V, bool)\<close>: \<open>Some v\<close> is \<open>(v, true)\<close>, \<open>None\<close> is \<open>(zero, false)\<close>.\<close>

definition Get ::
  "('k, 'v) Tx \<Rightarrow> 'k \<Rightarrow> ('k, 'v) MVCCMap \<Rightarrow> 'v option \<times> ('k, 'v) Tx" where
  "Get tx key s =
     (if checkActive tx \<noteq> None then (None, tx)
      else case map_of (writes tx) key of
        Some vv \<Rightarrow> (Some (vvalue vv), tx\<lparr>readSet := insert key (readSet tx)\<rparr>)
      | None \<Rightarrow>
          (case data (heap s ! snapshot tx) key of
             Some vv \<Rightarrow> (Some (vvalue vv), tx\<lparr>readSet := insert key (readSet tx)\<rparr>)
           | None \<Rightarrow> (None, tx)))"

definition Rollback ::
  "('k, 'v) Tx \<Rightarrow> ('k, 'v) MVCCMap \<Rightarrow> ('k, 'v) Tx \<times> ('k, 'v) MVCCMap" where
  "Rollback tx s =
     (if state tx \<noteq> txActive then (tx, s)
      else release (tx\<lparr>state := txRolledBack\<rparr>) s)"

definition Put ::
  "('k, 'v) Tx \<Rightarrow> 'k \<Rightarrow> 'v \<Rightarrow> ('k, 'v) MVCCMap \<Rightarrow> error option \<times> ('k, 'v) Tx \<times> ('k, 'v) MVCCMap" where
  "Put tx key val s =
     (case checkActive tx of
        Some err \<Rightarrow> (Some err, tx, s)
      | None \<Rightarrow>
          (case ctxErr tx of
             Some err \<Rightarrow> (Some (ErrTxCanceled err), Rollback tx s)
           | None \<Rightarrow>
               (None,
                tx\<lparr>writes :=
                     AList.update key \<lparr>vvalue = val, writerTxID = tx_id tx\<rparr> (writes tx)\<rparr>,
                s)))"

definition Commit ::
  "('k, 'v) Tx \<Rightarrow> ('k, 'v) MVCCMap \<Rightarrow> error option \<times> ('k, 'v) Tx \<times> ('k, 'v) MVCCMap" where
  "Commit tx s =
     (if state tx \<noteq> txActive then (Some ErrTxDone, tx, s)
      else
        let tx1 = tx\<lparr>state := txCommitted\<rparr> in
        case ctxErr tx1 of
          Some err \<Rightarrow> (Some (ErrTxCanceled err), release (tx1\<lparr>state := txRolledBack\<rparr>) s)
        | None \<Rightarrow> (case commit tx1 s of (r, s1) \<Rightarrow> (r, release tx1 s1)))"

section \<open>gc.go\<close>

text \<open>
  \<open>currentVersionID\<close>. \<open>m.current\<close> is stored by \<open>NewMVCCMap\<close> before the map is
  returned and only ever replaced by a new version, so the \<open>nil\<close> branch is not taken.
\<close>

definition currentVersionID :: "('k, 'v) MVCCMap \<Rightarrow> uint64" where
  "currentVersionID s = v_id (heap s ! current s)"

text \<open>
  \<open>collectVersions\<close>. The loop over \<open>m.activeTxs\<close> has the body \<open>_ = meta\<close> and changes
  nothing; \<open>kept\<close> is filled in the order of \<open>m.versions\<close>.
\<close>

definition collectVersions :: "('k, 'v) MVCCMap \<Rightarrow> ('k, 'v) MVCCMap" where
  "collectVersions s =
     (let minSnapshotID = currentVersionID s;
          currentID = currentVersionID s;
          kept = filter (\<lambda>a. let v = heap s ! a in
                    v_id v = currentID \<or> 0 <s refCount v \<or> minSnapshotID \<le> v_id v)
                   (versions s)
      in s\<lparr>versions := kept\<rparr>)"

section \<open>deadlock.go\<close>

text \<open>
  The wait-for graph that \<open>detectDeadlocks\<close> builds from \<open>m.activeTxs\<close>: an edge
  \<open>id \<rightarrow> waitFor\<close> for every entry whose \<open>waitFor\<close> is not 0.
\<close>

definition wait_graph :: "(uint64 \<times> txMeta) list \<Rightarrow> (uint64 \<times> uint64) list" where
  "wait_graph metas =
     map (\<lambda>im. (fst im, waitFor (snd im))) (filter (\<lambda>im. waitFor (snd im) \<noteq> 0) metas)"

text \<open>
  The closure \<open>dfs\<close>. The maps \<open>visited\<close> and \<open>inStack\<close> (\<open>map[uint64]bool\<close>, a missing
  key reads \<open>false\<close>) are the sets of keys that map to \<open>true\<close>; both are threaded through
  the calls. A call recurses only after adding a new id to \<open>visited\<close>, so the number of
  ids outside \<open>visited\<close> decreases.
\<close>

function dfs ::
  "(uint64 \<times> uint64) list \<Rightarrow> uint64 \<Rightarrow> uint64 set \<times> uint64 set \<Rightarrow>
   uint64 list option \<times> uint64 set \<times> uint64 set" where
  "dfs graph i (visited, inStack) =
     (if i \<in> inStack then (Some [i], visited, inStack)
      else if i \<in> visited then (None, visited, inStack)
      else
        (case map_of graph i of
           Some next \<Rightarrow>
             (case dfs graph next (insert i visited, insert i inStack) of
                (Some cycle, visited', inStack') \<Rightarrow> (Some (cycle @ [i]), visited', inStack')
              | (None, visited', inStack') \<Rightarrow> (None, visited', inStack' - {i}))
         | None \<Rightarrow> (None, insert i visited, insert i inStack - {i})))"
  by pat_completeness auto
termination
proof (relation "measure (\<lambda>(graph, i, visited, inStack). card (- visited))")
  show "wf (measure (\<lambda>(graph, i, visited, inStack). card (- visited)))" by simp
next
  fix graph :: "(uint64 \<times> uint64) list" and i x2 :: uint64
    and visited inStack :: "uint64 set"
  assume "i \<notin> visited"
  then have "- insert i visited \<subset> - visited" by auto
  then have "card (- insert i visited) < card (- visited)"
    by (intro psubset_card_mono) simp_all
  then show "((graph, x2, insert i visited, insert i inStack), graph, i, visited, inStack)
       \<in> measure (\<lambda>(graph, i, visited, inStack). card (- visited))" by simp
qed

text \<open>
  The loop \<open>for id := range graph\<close> of \<open>detectDeadlocks\<close>, over the keys in the order Go
  iterates them; it stops at the first cycle.
\<close>

fun detect_loop ::
  "(uint64 \<times> uint64) list \<Rightarrow> uint64 list \<Rightarrow> uint64 set \<times> uint64 set \<Rightarrow> uint64 list option" where
  "detect_loop graph [] st = None"
| "detect_loop graph (i # rest) st =
     (if i \<notin> fst st then
        (case dfs graph i st of
           (Some cycle, st') \<Rightarrow> Some cycle
         | (None, st') \<Rightarrow> detect_loop graph rest st')
      else detect_loop graph rest st)"

text \<open>The loop of \<open>resolveDeadlock\<close> that selects the victim, starting from 0.\<close>

definition pick_victim :: "uint64 list \<Rightarrow> uint64" where
  "pick_victim cycle = fold (\<lambda>i victim. if victim < i then i else victim) cycle 0"

text \<open>
  \<open>resolveDeadlock\<close>: it logs the cycle and the victim, looks the victim up in
  \<open>m.activeTxs\<close> and, when it is there, locks and unlocks its mutex; the last statement
  is \<open>_ = meta\<close>. The result is the logged victim and the store.
\<close>

definition resolveDeadlock ::
  "uint64 list \<Rightarrow> ('k, 'v) MVCCMap \<Rightarrow> uint64 \<times> ('k, 'v) MVCCMap" where
  "resolveDeadlock cycle s =
     (let victim = pick_victim cycle in
      case map_of (activeTxs s) victim of
        Some meta \<Rightarrow> (victim, s)
      | None \<Rightarrow> (victim, s))"

text \<open>
  \<open>detectDeadlocks\<close>: the logged \<open>(cycle, victim)\<close> when a cycle was found, and the store.
\<close>

definition detectDeadlocks ::
  "('k, 'v) MVCCMap \<Rightarrow> (uint64 list \<times> uint64) option \<times> ('k, 'v) MVCCMap" where
  "detectDeadlocks s =
     (let graph = wait_graph (activeTxs s) in
      case detect_loop graph (map fst graph) ({}, {}) of
        Some cycle \<Rightarrow> (case resolveDeadlock cycle s of (victim, s') \<Rightarrow> (Some (cycle, victim), s'))
      | None \<Rightarrow> (None, s))"

section \<open>Clients of the store\<close>

text \<open>
  A run of the package: the store and the transaction handles its callers hold, in the
  order \<open>BeginTx\<close> returned them. Every step is one call, or one tick of a background
  goroutine, taken atomically. \<open>OpCtxDone i e\<close> is the caller's context of transaction
  \<open>i\<close> ending with error \<open>e\<close> (cancelled, or its deadline passing). A call on a handle
  that does not exist is no step.
\<close>

record ('k, 'v) world =
  db :: "('k, 'v) MVCCMap"
  txs :: "('k, 'v) Tx list"

datatype ('k, 'v) op =
    OpBeginTx "ctxError option"
  | OpGet nat 'k
  | OpPut nat 'k 'v
  | OpCommit nat
  | OpRollback nat
  | OpCtxDone nat ctxError
  | OpGC
  | OpDetect

definition ctx_done :: "ctxError \<Rightarrow> ('k, 'v) Tx \<Rightarrow> ('k, 'v) Tx" where
  "ctx_done e tx = (case ctxErr tx of None \<Rightarrow> tx\<lparr>ctxErr := Some e\<rparr> | Some e' \<Rightarrow> tx)"

fun step :: "('k, 'v) op \<Rightarrow> ('k, 'v) world \<Rightarrow> ('k, 'v) world" where
  "step (OpBeginTx parent) w =
     (case BeginTx parent (db w) of (tx, s) \<Rightarrow> \<lparr>db = s, txs = txs w @ [tx]\<rparr>)"
| "step (OpGet i key) w =
     (if i < length (txs w)
      then w\<lparr>txs := (txs w)[i := snd (Get (txs w ! i) key (db w))]\<rparr> else w)"
| "step (OpPut i key val) w =
     (if i < length (txs w)
      then (case Put (txs w ! i) key val (db w) of
              (r, tx, s) \<Rightarrow> \<lparr>db = s, txs = (txs w)[i := tx]\<rparr>)
      else w)"
| "step (OpCommit i) w =
     (if i < length (txs w)
      then (case Commit (txs w ! i) (db w) of
              (r, tx, s) \<Rightarrow> \<lparr>db = s, txs = (txs w)[i := tx]\<rparr>)
      else w)"
| "step (OpRollback i) w =
     (if i < length (txs w)
      then (case Rollback (txs w ! i) (db w) of
              (tx, s) \<Rightarrow> \<lparr>db = s, txs = (txs w)[i := tx]\<rparr>)
      else w)"
| "step (OpCtxDone i e) w =
     (if i < length (txs w) then w\<lparr>txs := (txs w)[i := ctx_done e (txs w ! i)]\<rparr> else w)"
| "step OpGC w = w\<lparr>db := collectVersions (db w)\<rparr>"
| "step OpDetect w = w\<lparr>db := snd (detectDeadlocks (db w))\<rparr>"

fun run :: "('k, 'v) op list \<Rightarrow> ('k, 'v) world \<Rightarrow> ('k, 'v) world" where
  "run [] w = w"
| "run (x # xs) w = run xs (step x w)"

definition new_world :: "('k, 'v) world" where
  "new_world = \<lparr>db = NewMVCCMap, txs = []\<rparr>"

section \<open>The specification's wording, for comparison\<close>



text \<open>
  The reclaimer as the specification words it: \<open>min_active_snapshot_id\<close> is the smallest
  snapshot id among the active transactions (the current version's id when there are
  none), and a version is retained when it is current, or its refcount is positive, or
  its id is at least \<open>min_active_snapshot_id\<close>. The snapshot ids are read from the
  callers' transaction handles: \<open>txMeta\<close> does not hold them.
\<close>

definition active_snapshot_ids :: "('k, 'v) world \<Rightarrow> uint64 list" where
  "active_snapshot_ids w =
     map (\<lambda>tx. v_id (heap (db w) ! snapshot tx)) (filter (\<lambda>tx. state tx = txActive) (txs w))"

definition spec_min_active_snapshot_id :: "('k, 'v) world \<Rightarrow> uint64" where
  "spec_min_active_snapshot_id w =
     (case active_snapshot_ids w of
        [] \<Rightarrow> v_id (heap (db w) ! current (db w))
      | i # ids \<Rightarrow> fold min ids i)"

definition spec_retained_with :: "uint64 \<Rightarrow> ('k, 'v) MVCCMap \<Rightarrow> addr list" where
  "spec_retained_with min_active_snapshot_id s =
     filter (\<lambda>a. a = current s \<or> 0 <s refCount (heap s ! a) \<or>
                 min_active_snapshot_id \<le> v_id (heap s ! a))
       (versions s)"

definition spec_retained :: "('k, 'v) world \<Rightarrow> addr list" where
  "spec_retained w = spec_retained_with (spec_min_active_snapshot_id w) (db w)"

section \<open>Well-formed transactions\<close>

text \<open>
  What \<open>BeginTx\<close> and \<open>Put\<close> maintain of \<open>tx.writes\<close>: it is a Go map (one entry per
  key), and \<open>Put\<close> stamps every entry with \<open>tx.id\<close>.
\<close>

definition tx_wf :: "('k, 'v) Tx \<Rightarrow> bool" where
  "tx_wf tx \<longleftrightarrow>
     distinct (map fst (writes tx)) \<and> (\<forall>kv \<in> set (writes tx). writerTxID (snd kv) = tx_id tx)"

section \<open>Sequences of terminating calls\<close>

text \<open>
  A caller's sequence of \<open>Commit\<close> and \<open>Rollback\<close> calls on one transaction, with the
  error each call returns (\<open>Rollback\<close> returns nothing). \<open>done_result\<close> is what a call
  returns on a transaction that is no longer active.
\<close>

datatype term_call = CallCommit | CallRollback

fun term_calls ::
  "term_call list \<Rightarrow> ('k, 'v) Tx \<Rightarrow> ('k, 'v) MVCCMap \<Rightarrow>
   error option list \<times> ('k, 'v) Tx \<times> ('k, 'v) MVCCMap" where
  "term_calls [] tx s = ([], tx, s)"
| "term_calls (CallCommit # cs) tx s =
     (case Commit tx s of (r, tx', s') \<Rightarrow>
        (case term_calls cs tx' s' of (rs, tx'', s'') \<Rightarrow> (r # rs, tx'', s'')))"
| "term_calls (CallRollback # cs) tx s =
     (case Rollback tx s of (tx', s') \<Rightarrow>
        (case term_calls cs tx' s' of (rs, tx'', s'') \<Rightarrow> (None # rs, tx'', s'')))"

definition done_result :: "term_call \<Rightarrow> error option" where
  "done_result c = (case c of CallCommit \<Rightarrow> Some ErrTxDone | CallRollback \<Rightarrow> None)"

section \<open>Runs: frames and invariants\<close>


fun is_commit :: "('k, 'v) op \<Rightarrow> bool" where
  "is_commit (OpCommit i) = True"
| "is_commit x = False"

fun is_begin :: "('k, 'v) op \<Rightarrow> bool" where
  "is_begin (OpBeginTx parent) = True"
| "is_begin x = False"

text \<open>
  \<open>heap_extends s s'\<close>: every version object of \<open>s\<close> is still there in \<open>s'\<close> with the
  same id and the same map (only refcounts move, and new objects are added).
\<close>

definition heap_extends :: "('k, 'v) MVCCMap \<Rightarrow> ('k, 'v) MVCCMap \<Rightarrow> bool" where
  "heap_extends s s' \<longleftrightarrow>
     length (heap s) \<le> length (heap s') \<and>
     (\<forall>a < length (heap s). data (heap s' ! a) = data (heap s ! a) \<and>
                             v_id (heap s' ! a) = v_id (heap s ! a))"

text \<open>
  \<open>fresh\<close>: the store still holds the empty version 0 only, and every transaction has
  it as its snapshot.
\<close>

definition fresh :: "('k, 'v) world \<Rightarrow> bool" where
  "fresh w \<longleftrightarrow>
     length (heap (db w)) = 1 \<and> current (db w) = 0 \<and> versions (db w) = [0] \<and>
     v_id (heap (db w) ! 0) = 0 \<and> data (heap (db w) ! 0) = Map.empty \<and>
     (\<forall>tx \<in> set (txs w). snapshot tx = 0)"

text \<open>
  No id 0: no transaction has id 0 or a buffered entry stamped 0, and no entry of any
  version is stamped 0.
\<close>

definition ids_ok :: "('k, 'v) world \<Rightarrow> bool" where
  "ids_ok w \<longleftrightarrow>
     current (db w) < length (heap (db w)) \<and>
     (\<forall>tx \<in> set (txs w). tx_id tx \<noteq> 0 \<and> (\<forall>kv \<in> set (writes tx). writerTxID (snd kv) \<noteq> 0)) \<and>
     (\<forall>a < length (heap (db w)). \<forall>k vv. data (heap (db w) ! a) k = Some vv \<longrightarrow> writerTxID vv \<noteq> 0)"

definition tx_ids_ok :: "('k, 'v) Tx \<Rightarrow> bool" where
  "tx_ids_ok tx \<longleftrightarrow> tx_id tx \<noteq> 0 \<and> (\<forall>kv \<in> set (writes tx). writerTxID (snd kv) \<noteq> 0)"

definition heap_ids_ok :: "('k, 'v) MVCCMap \<Rightarrow> bool" where
  "heap_ids_ok s \<longleftrightarrow>
     current s < length (heap s) \<and>
     (\<forall>a < length (heap s). \<forall>k vv. data (heap s ! a) k = Some vv \<longrightarrow> writerTxID vv \<noteq> 0)"

text \<open>\<open>no_waits\<close>: no registered transaction waits for another.\<close>

definition no_waits :: "('k, 'v) MVCCMap \<Rightarrow> bool" where
  "no_waits s \<longleftrightarrow> (\<forall>im \<in> set (activeTxs s). waitFor (snd im) = 0)"




section \<open>Evaluation and frame lemmas\<close>

lemmas op_defs = BeginTx_def Put_def Commit_def Rollback_def Get_def commit_def release_def
  cancel_def refCount_Add_def unregisterTx_def checkActive_def newVersion_def clone_def
  conflict_at_def collectVersions_def currentVersionID_def new_world_def NewMVCCMap_def
  Let_def word_sless_alt ctx_done_def word_le_nat_alt word_less_nat_alt

lemmas detect_defs = detectDeadlocks_def wait_graph_def resolveDeadlock_def pick_victim_def
  Let_def word_less_nat_alt

lemma heap_unregisterTx [simp]: "heap (unregisterTx i s) = heap s"
  by (simp add: unregisterTx_def)

lemma current_unregisterTx [simp]: "current (unregisterTx i s) = current s"
  by (simp add: unregisterTx_def)

lemma versions_unregisterTx [simp]: "versions (unregisterTx i s) = versions s"
  by (simp add: unregisterTx_def)

lemma activeTxs_unregisterTx [simp]:
  "activeTxs (unregisterTx i s) = AList.delete i (activeTxs s)"
  by (simp add: unregisterTx_def)

lemma refCount_Add_fields [simp]:
  "current (refCount_Add a d s) = current s"
  "versions (refCount_Add a d s) = versions s"
  "activeTxs (refCount_Add a d s) = activeTxs s"
  "nextTxID (refCount_Add a d s) = nextTxID s"
  "nextVersionID (refCount_Add a d s) = nextVersionID s"
  "length (heap (refCount_Add a d s)) = length (heap s)"
  by (simp_all add: refCount_Add_def)

lemma refCount_Add_data [simp]:
  "data (heap (refCount_Add a d s) ! b) = data (heap s ! b)"
  by (cases "a < length (heap s)"; cases "a = b")
    (simp_all add: refCount_Add_def list_update_beyond not_less)

lemma refCount_Add_v_id [simp]:
  "v_id (heap (refCount_Add a d s) ! b) = v_id (heap s ! b)"
  by (cases "a < length (heap s)"; cases "a = b")
    (simp_all add: refCount_Add_def list_update_beyond not_less)

lemma refCount_Add_refCount:
  "a < length (heap s) \<Longrightarrow>
   refCount (heap (refCount_Add a d s) ! b) =
     (if b = a then refCount (heap s ! a) + d else refCount (heap s ! b))"
  by (simp add: refCount_Add_def)

lemma release_fields:
  "release tx s = (tx', s') \<Longrightarrow>
   tx' = cancel tx \<and> current s' = current s \<and> versions s' = versions s \<and>
   activeTxs s' = AList.delete (tx_id tx) (activeTxs s) \<and>
   length (heap s') = length (heap s) \<and>
   (\<forall>b. data (heap s' ! b) = data (heap s ! b) \<and> v_id (heap s' ! b) = v_id (heap s ! b))"
  by (auto simp: release_def)

lemma release_refCount:
  "release tx s = (tx', s') \<Longrightarrow> snapshot tx < length (heap s) \<Longrightarrow>
   refCount (heap s' ! b) =
     (if b = snapshot tx then refCount (heap s ! b) - 1 else refCount (heap s ! b))"
  by (auto simp: release_def refCount_Add_refCount)

lemma cancel_fields [simp]:
  "state (cancel tx) = state tx" "tx_id (cancel tx) = tx_id tx"
  "snapshot (cancel tx) = snapshot tx" "writes (cancel tx) = writes tx"
  "readSet (cancel tx) = readSet tx"
  "ctxErr (cancel tx) = Some (case ctxErr tx of None \<Rightarrow> Canceled | Some e \<Rightarrow> e)"
  by (simp_all add: cancel_def split: option.splits)

lemma commit_cases:
  "commit tx s = (r, s') \<Longrightarrow>
   (r = Some ErrConflict \<and> s' = s) \<or>
   (r = None \<and>
    s' = s\<lparr>heap := heap s @
            [newVersion (nextVersionID s + 1) (overlay (writes tx) (clone (heap s ! current s)))],
          current := length (heap s), nextVersionID := nextVersionID s + 1,
          versions := versions s @ [length (heap s)]\<rparr>)"
  by (auto simp: commit_def Let_def split: if_splits)

lemma tx_update_fields [simp]:
  "tx_id (tx\<lparr>state := st\<rparr>) = tx_id tx" "snapshot (tx\<lparr>state := st\<rparr>) = snapshot tx"
  by simp_all


lemma set_update_subset: "set (AList.update k v al) \<subseteq> insert (k, v) (set al)"
  by (induction al) auto


lemma world_begin:
  "run [OpBeginTx None] (new_world :: (string, int) world) =
   \<lparr>db = \<lparr>heap = [\<lparr>v_id = 0, data = Map.empty, refCount = 1\<rparr>], current = 0,
           nextTxID = 1, nextVersionID = 0,
           activeTxs = [(1, \<lparr>meta_id = 1, waitFor = 0\<rparr>)], versions = [0]\<rparr>,
      txs = [\<lparr>tx_id = 1, snapshot = 0, writes = [], readSet = {}, state = txActive,
               ctxErr = None\<rparr>]\<rparr>"
  by (simp add: op_defs)

lemma world_deadline:
  "run [OpBeginTx None, OpPut 0 ''x'' 42, OpCtxDone 0 DeadlineExceeded]
     (new_world :: (string, int) world) =
   \<lparr>db = \<lparr>heap = [\<lparr>v_id = 0, data = Map.empty, refCount = 1\<rparr>], current = 0,
           nextTxID = 1, nextVersionID = 0,
           activeTxs = [(1, \<lparr>meta_id = 1, waitFor = 0\<rparr>)], versions = [0]\<rparr>,
      txs = [\<lparr>tx_id = 1, snapshot = 0,
               writes = [(''x'', \<lparr>vvalue = 42, writerTxID = 1\<rparr>)],
               readSet = {}, state = txActive, ctxErr = Some DeadlineExceeded\<rparr>]\<rparr>"
  by (simp add: op_defs)

lemma world_two_writers:
  "run [OpBeginTx None, OpBeginTx None, OpPut 0 ''counter'' 1, OpPut 1 ''counter'' 2]
     (new_world :: (string, int) world) =
   \<lparr>db = \<lparr>heap = [\<lparr>v_id = 0, data = Map.empty, refCount = 2\<rparr>], current = 0,
           nextTxID = 2, nextVersionID = 0,
           activeTxs = [(1, \<lparr>meta_id = 1, waitFor = 0\<rparr>), (2, \<lparr>meta_id = 2, waitFor = 0\<rparr>)],
           versions = [0]\<rparr>,
      txs = [\<lparr>tx_id = 1, snapshot = 0,
               writes = [(''counter'', \<lparr>vvalue = 1, writerTxID = 1\<rparr>)],
               readSet = {}, state = txActive, ctxErr = None\<rparr>,
             \<lparr>tx_id = 2, snapshot = 0,
               writes = [(''counter'', \<lparr>vvalue = 2, writerTxID = 2\<rparr>)],
               readSet = {}, state = txActive, ctxErr = None\<rparr>]\<rparr>"
  by (simp add: op_defs)

lemma world_first_committed:
  "run [OpBeginTx None, OpBeginTx None, OpPut 0 ''counter'' 1, OpPut 1 ''counter'' 2,
        OpCommit 0] (new_world :: (string, int) world) =
   \<lparr>db = \<lparr>heap = [\<lparr>v_id = 0, data = Map.empty, refCount = 1\<rparr>,
                   \<lparr>v_id = 1, data = [''counter'' \<mapsto> \<lparr>vvalue = 1, writerTxID = 1\<rparr>],
                      refCount = 0\<rparr>],
           current = 1, nextTxID = 2, nextVersionID = 1,
           activeTxs = [(2, \<lparr>meta_id = 2, waitFor = 0\<rparr>)], versions = [0, 1]\<rparr>,
      txs = [\<lparr>tx_id = 1, snapshot = 0,
               writes = [(''counter'', \<lparr>vvalue = 1, writerTxID = 1\<rparr>)],
               readSet = {}, state = txCommitted, ctxErr = Some Canceled\<rparr>,
             \<lparr>tx_id = 2, snapshot = 0,
               writes = [(''counter'', \<lparr>vvalue = 2, writerTxID = 2\<rparr>)],
               readSet = {}, state = txActive, ctxErr = None\<rparr>]\<rparr>"
  by (simp add: op_defs)

lemma world_long_reader:
  "run [OpBeginTx None, OpBeginTx None, OpPut 1 ''a'' 1, OpCommit 1,
        OpBeginTx None, OpPut 2 ''a'' 2, OpCommit 2] (new_world :: (string, int) world) =
   \<lparr>db = \<lparr>heap = [\<lparr>v_id = 0, data = Map.empty, refCount = 1\<rparr>,
                   \<lparr>v_id = 1, data = [''a'' \<mapsto> \<lparr>vvalue = 1, writerTxID = 2\<rparr>], refCount = 0\<rparr>,
                   \<lparr>v_id = 2, data = [''a'' \<mapsto> \<lparr>vvalue = 2, writerTxID = 3\<rparr>], refCount = 0\<rparr>],
           current = 2, nextTxID = 3, nextVersionID = 2,
           activeTxs = [(1, \<lparr>meta_id = 1, waitFor = 0\<rparr>)], versions = [0, 1, 2]\<rparr>,
      txs = [\<lparr>tx_id = 1, snapshot = 0, writes = [], readSet = {}, state = txActive,
               ctxErr = None\<rparr>,
             \<lparr>tx_id = 2, snapshot = 0, writes = [(''a'', \<lparr>vvalue = 1, writerTxID = 2\<rparr>)],
               readSet = {}, state = txCommitted, ctxErr = Some Canceled\<rparr>,
             \<lparr>tx_id = 3, snapshot = 1, writes = [(''a'', \<lparr>vvalue = 2, writerTxID = 3\<rparr>)],
               readSet = {}, state = txCommitted, ctxErr = Some Canceled\<rparr>]\<rparr>"
  by (simp add: op_defs)

lemma detectDeadlocks_store [simp]: "snd (detectDeadlocks s) = s"
  by (simp add: detectDeadlocks_def resolveDeadlock_def Let_def split: option.splits)

section \<open>The commit critical section\<close>

lemma conflict_loop_iff:
  "conflict_loop cur snap ws \<longleftrightarrow> (\<exists>k \<in> fst ` set ws. conflict_at cur snap k)"
  by (induction ws) auto

lemma overlay_apply:
  "distinct (map fst ws) \<Longrightarrow>
   overlay ws m k = (case map_of ws k of Some vv \<Rightarrow> Some vv | None \<Rightarrow> m k)"
proof (induction ws arbitrary: m)
  case Nil
  then show ?case by simp
next
  case (Cons kv ws)
  then have "map_of ws (fst kv) = None"
    by (simp add: map_of_eq_None_iff)
  with Cons show ?case
    by (cases kv) (auto split: option.splits)
qed

lemma conflict_at_iff:
  "conflict_at cur snap k \<longleftrightarrow>
   (\<exists>vv. data cur k = Some vv \<and> writerTxID vv \<noteq> 0 \<and> v_id snap < v_id cur \<and>
      (\<forall>sv. data snap k = Some sv \<longrightarrow> writerTxID sv \<noteq> writerTxID vv))"
  by (auto simp: conflict_at_def split: option.splits)

text \<open>
  What the loop tests, on any store: \<open>commit\<close> returns \<open>ErrConflict\<close> exactly when some
  key of the write set has an entry in the current version whose \<open>writerTxID\<close> is not 0,
  the current version's id is greater than the snapshot's id, and the snapshot has no
  entry for the key or one with another \<open>writerTxID\<close>.
\<close>

lemma commit_conflict_guards:
  "fst (commit tx s) = Some ErrConflict \<longleftrightarrow>
   (\<exists>k \<in> fst ` set (writes tx). \<exists>vv.
      data (heap s ! current s) k = Some vv \<and>
      writerTxID vv \<noteq> 0 \<and>
      v_id (heap s ! snapshot tx) < v_id (heap s ! current s) \<and>
      (\<forall>sv. data (heap s ! snapshot tx) k = Some sv \<longrightarrow> writerTxID sv \<noteq> writerTxID vv))"
proof -
  have "fst (commit tx s) = Some ErrConflict \<longleftrightarrow>
        conflict_loop (heap s ! current s) (heap s ! snapshot tx) (writes tx)"
    by (simp add: commit_def Let_def)
  also have "\<dots> \<longleftrightarrow>
        (\<exists>k \<in> fst ` set (writes tx). conflict_at (heap s ! current s) (heap s ! snapshot tx) k)"
    by (rule conflict_loop_iff)
  finally show ?thesis
    by (simp only: conflict_at_iff)
qed

section \<open>Tx.Commit\<close>

text \<open>
  C6. \<open>Commit\<close> on a transaction that is not active returns \<open>ErrTxDone\<close> and changes
  nothing. On an active one, whatever it returns, the context is cancelled afterwards,
  the transaction is no longer registered, and the refcount of its snapshot is one less.
  If the context had already ended, the result is \<open>ErrTxCanceled\<close> wrapping the context's
  error, the state is \<open>txRolledBack\<close> and nothing is published; otherwise the state is
  \<open>txCommitted\<close> and the result is that of the critical section.
\<close>

theorem Commit_protocol:
  "(state tx \<noteq> txActive \<longrightarrow> Commit tx s = (Some ErrTxDone, tx, s)) \<and>
   (state tx = txActive \<longrightarrow>
      (case Commit tx s of (r, tx', s') \<Rightarrow>
         ctxErr tx' = Some (case ctxErr tx of None \<Rightarrow> Canceled | Some e \<Rightarrow> e) \<and>
         map_of (activeTxs s') (tx_id tx) = None \<and>
         (snapshot tx < length (heap s) \<longrightarrow>
            refCount (heap s' ! snapshot tx) = refCount (heap s ! snapshot tx) - 1) \<and>
         (case ctxErr tx of
            Some e \<Rightarrow> r = Some (ErrTxCanceled e) \<and> state tx' = txRolledBack \<and>
                      current s' = current s \<and> versions s' = versions s
          | None \<Rightarrow> state tx' = txCommitted \<and>
                    r = fst (commit (tx\<lparr>state := txCommitted\<rparr>) s))))"
proof (intro conjI impI)
  assume "state tx \<noteq> txActive"
  then show "Commit tx s = (Some ErrTxDone, tx, s)" by (simp add: Commit_def)
next
  assume act: "state tx = txActive"
  show "case Commit tx s of (r, tx', s') \<Rightarrow>
         ctxErr tx' = Some (case ctxErr tx of None \<Rightarrow> Canceled | Some e \<Rightarrow> e) \<and>
         map_of (activeTxs s') (tx_id tx) = None \<and>
         (snapshot tx < length (heap s) \<longrightarrow>
            refCount (heap s' ! snapshot tx) = refCount (heap s ! snapshot tx) - 1) \<and>
         (case ctxErr tx of
            Some e \<Rightarrow> r = Some (ErrTxCanceled e) \<and> state tx' = txRolledBack \<and>
                      current s' = current s \<and> versions s' = versions s
          | None \<Rightarrow> state tx' = txCommitted \<and>
                    r = fst (commit (tx\<lparr>state := txCommitted\<rparr>) s))"
  proof (cases "ctxErr tx")
    case (Some e)
    with act show ?thesis
      by (simp add: Commit_def release_def refCount_Add_refCount AList.delete_conv')
  next
    case None
    obtain r s1 where c: "commit (tx\<lparr>state := txCommitted\<rparr>) s = (r, s1)"
      by (cases "commit (tx\<lparr>state := txCommitted\<rparr>) s")
    from commit_cases [OF c] have
      h: "length (heap s) \<le> length (heap s1)"
         "snapshot tx < length (heap s) \<longrightarrow> heap s1 ! snapshot tx = heap s ! snapshot tx"
      by (auto simp: nth_append)
    from act None c h show ?thesis
      by (simp add: Commit_def release_def refCount_Add_refCount AList.delete_conv')
  qed
qed

theorem Commit_protocol_witness:
  "state (txs (run [OpBeginTx None, OpPut 0 ''x'' 42, OpCtxDone 0 DeadlineExceeded]
                 (new_world :: (string, int) world)) ! 0) = txActive \<and>
   Commit (txs (run [OpBeginTx None, OpPut 0 ''x'' 42, OpCtxDone 0 DeadlineExceeded]
                 (new_world :: (string, int) world)) ! 0)
          (db (run [OpBeginTx None, OpPut 0 ''x'' 42, OpCtxDone 0 DeadlineExceeded] new_world)) =
     (Some (ErrTxCanceled DeadlineExceeded),
      \<lparr>tx_id = 1, snapshot = 0, writes = [(''x'', \<lparr>vvalue = 42, writerTxID = 1\<rparr>)],
         readSet = {}, state = txRolledBack, ctxErr = Some DeadlineExceeded\<rparr>,
      \<lparr>heap = [\<lparr>v_id = 0, data = Map.empty, refCount = 0\<rparr>], current = 0,
         nextTxID = 1, nextVersionID = 0, activeTxs = [], versions = [0]\<rparr>) \<and>
   state (txs (run [OpBeginTx None, OpBeginTx None, OpPut 0 ''counter'' 1,
                    OpPut 1 ''counter'' 2, OpCommit 0]
                 (new_world :: (string, int) world)) ! 0) \<noteq> txActive \<and>
   fst (Commit (txs (run [OpBeginTx None, OpBeginTx None, OpPut 0 ''counter'' 1,
                          OpPut 1 ''counter'' 2, OpCommit 0]
                       (new_world :: (string, int) world)) ! 0)
          (db (run [OpBeginTx None, OpBeginTx None, OpPut 0 ''counter'' 1,
                    OpPut 1 ''counter'' 2, OpCommit 0] new_world))) = Some ErrTxDone"
  using
    Commit_protocol [of
      "txs (run [OpBeginTx None, OpPut 0 ''x'' 42, OpCtxDone 0 DeadlineExceeded]
              (new_world :: (string, int) world)) ! 0"
      "db (run [OpBeginTx None, OpPut 0 ''x'' 42, OpCtxDone 0 DeadlineExceeded] new_world)"]
    Commit_protocol [of
      "txs (run [OpBeginTx None, OpBeginTx None, OpPut 0 ''counter'' 1,
                 OpPut 1 ''counter'' 2, OpCommit 0] (new_world :: (string, int) world)) ! 0"
      "db (run [OpBeginTx None, OpBeginTx None, OpPut 0 ''counter'' 1,
                OpPut 1 ''counter'' 2, OpCommit 0] new_world)"]
  unfolding world_deadline world_first_committed
  by (simp add: op_defs)

lemma Put_not_Conflict: "fst (Put tx k v s) \<noteq> Some ErrConflict"
  by (simp add: Put_def checkActive_def split: option.splits)

lemma Commit_Conflict_D:
  assumes "fst (Commit tx s) = Some ErrConflict"
  shows "state tx = txActive \<and> ctxErr tx = None \<and>
         commit (tx\<lparr>state := txCommitted\<rparr>) s = (Some ErrConflict, s) \<and>
         snd (Commit tx s) = release (tx\<lparr>state := txCommitted\<rparr>) s"
proof -
  from assms have act: "state tx = txActive"
    by (auto simp: Commit_def split: if_splits)
  from assms act have none: "ctxErr tx = None"
    by (cases "ctxErr tx") (auto simp: Commit_def)
  obtain r s1 where c: "commit (tx\<lparr>state := txCommitted\<rparr>) s = (r, s1)"
    by (cases "commit (tx\<lparr>state := txCommitted\<rparr>) s")
  from assms act none c have "r = Some ErrConflict"
    by (simp add: Commit_def)
  with commit_cases [OF c] have "s1 = s" by auto
  with act none c \<open>r = Some ErrConflict\<close> show ?thesis
    by (simp add: Commit_def)
qed

text \<open>
  C7. When the critical section returns \<open>ErrConflict\<close> the store is unchanged. A \<open>Commit\<close>
  that returns \<open>ErrConflict\<close> got it from the critical section and leaves the current
  pointer, the versions list and every version's map as they were. \<open>Put\<close> never returns
  \<open>ErrConflict\<close>; \<open>BeginTx\<close>, \<open>Get\<close> and \<open>Rollback\<close> return no error at all.
\<close>

theorem Conflict_without_publishing:
  "(fst (commit tx s) = Some ErrConflict \<longrightarrow> snd (commit tx s) = s) \<and>
   (fst (Commit tx s) = Some ErrConflict \<longrightarrow>
      fst (commit (tx\<lparr>state := txCommitted\<rparr>) s) = Some ErrConflict \<and>
      current (snd (snd (Commit tx s))) = current s \<and>
      versions (snd (snd (Commit tx s))) = versions s \<and>
      length (heap (snd (snd (Commit tx s)))) = length (heap s) \<and>
      (\<forall>a. data (heap (snd (snd (Commit tx s))) ! a) = data (heap s ! a))) \<and>
   fst (Put tx k v s) \<noteq> Some ErrConflict"
proof (intro conjI impI)
  assume "fst (commit tx s) = Some ErrConflict"
  then show "snd (commit tx s) = s"
    by (cases "commit tx s") (auto dest: commit_cases)
next
  assume a: "fst (Commit tx s) = Some ErrConflict"
  note d = Commit_Conflict_D [OF a]
  obtain tx' s' where r: "release (tx\<lparr>state := txCommitted\<rparr>) s = (tx', s')"
    by (cases "release (tx\<lparr>state := txCommitted\<rparr>) s")
  note f = release_fields [OF r]
  from d r have s': "snd (snd (Commit tx s)) = s'" by simp
  from d show "fst (commit (tx\<lparr>state := txCommitted\<rparr>) s) = Some ErrConflict" by simp
  from f s' show "current (snd (snd (Commit tx s))) = current s" by simp
  from f s' show "versions (snd (snd (Commit tx s))) = versions s" by simp
  from f s' show "length (heap (snd (snd (Commit tx s)))) = length (heap s)" by simp
  from f s' show "\<forall>a. data (heap (snd (snd (Commit tx s))) ! a) = data (heap s ! a)" by simp
next
  show "fst (Put tx k v s) \<noteq> Some ErrConflict" by (rule Put_not_Conflict)
qed

theorem Conflict_without_publishing_witness:
  "fst (Commit (txs (run [OpBeginTx None, OpBeginTx None, OpPut 0 ''counter'' 1,
                          OpPut 1 ''counter'' 2, OpCommit 0]
                       (new_world :: (string, int) world)) ! 1)
          (db (run [OpBeginTx None, OpBeginTx None, OpPut 0 ''counter'' 1,
                    OpPut 1 ''counter'' 2, OpCommit 0] new_world))) = Some ErrConflict \<and>
   current (snd (snd (Commit (txs (run [OpBeginTx None, OpBeginTx None, OpPut 0 ''counter'' 1,
                          OpPut 1 ''counter'' 2, OpCommit 0]
                       (new_world :: (string, int) world)) ! 1)
          (db (run [OpBeginTx None, OpBeginTx None, OpPut 0 ''counter'' 1,
                    OpPut 1 ''counter'' 2, OpCommit 0] new_world))))) = 1 \<and>
   versions (snd (snd (Commit (txs (run [OpBeginTx None, OpBeginTx None, OpPut 0 ''counter'' 1,
                          OpPut 1 ''counter'' 2, OpCommit 0]
                       (new_world :: (string, int) world)) ! 1)
          (db (run [OpBeginTx None, OpBeginTx None, OpPut 0 ''counter'' 1,
                    OpPut 1 ''counter'' 2, OpCommit 0] new_world))))) = [0, 1]"
  using
    Conflict_without_publishing [of
      "txs (run [OpBeginTx None, OpBeginTx None, OpPut 0 ''counter'' 1,
                 OpPut 1 ''counter'' 2, OpCommit 0] (new_world :: (string, int) world)) ! 1"
      "db (run [OpBeginTx None, OpBeginTx None, OpPut 0 ''counter'' 1,
                OpPut 1 ''counter'' 2, OpCommit 0] new_world)"
      "''counter''" 3]
  unfolding world_first_committed
  by (simp add: op_defs)

lemma Commit_success_D:
  assumes "Commit tx s = (None, tx', s')"
  shows "state tx = txActive \<and> ctxErr tx = None \<and>
         fst (commit (tx\<lparr>state := txCommitted\<rparr>) s) = None \<and>
         (tx', s') = release (tx\<lparr>state := txCommitted\<rparr>)
                       (snd (commit (tx\<lparr>state := txCommitted\<rparr>) s))"
proof -
  from assms have act: "state tx = txActive"
    by (auto simp: Commit_def split: if_splits)
  from assms act have none: "ctxErr tx = None"
    by (cases "ctxErr tx") (auto simp: Commit_def)
  from assms act none show ?thesis
    by (auto simp: Commit_def Let_def split: prod.splits)
qed

text \<open>
  C9. A successful \<open>Commit\<close> of a transaction whose write buffer was filled by \<open>Put\<close>
  publishes a new version: it is the new current version and the last of the versions
  list, its id is the next version id, and its map sends every key of the write set to
  the transaction's entry for it, stamped with the transaction's id, and every other key
  to what the previous current version has for it. The maps of the existing versions
  are not changed.
\<close>

theorem Commit_publishes_overlay:
  assumes wf: "tx_wf tx" and valid: "snapshot tx < length (heap s)"
    and ok: "Commit tx s = (None, tx', s')"
  shows "current s' = length (heap s) \<and>
         versions s' = versions s @ [current s'] \<and>
         v_id (heap s' ! current s') = nextVersionID s + 1 \<and>
         refCount (heap s' ! current s') = 0 \<and>
         (\<forall>k. data (heap s' ! current s') k =
                (case map_of (writes tx) k of
                   Some vv \<Rightarrow> Some vv
                 | None \<Rightarrow> data (heap s ! current s) k)) \<and>
         (\<forall>k vv. map_of (writes tx) k = Some vv \<longrightarrow> writerTxID vv = tx_id tx) \<and>
         (\<forall>k. k \<notin> fst ` set (writes tx) \<longrightarrow>
                data (heap s' ! current s') k = data (heap s ! current s) k) \<and>
         (\<forall>a < length (heap s). data (heap s' ! a) = data (heap s ! a))"
proof -
  let ?tx = "tx\<lparr>state := txCommitted\<rparr>"
  let ?new = "newVersion (nextVersionID s + 1) (overlay (writes tx) (clone (heap s ! current s)))"
  note d = Commit_success_D [OF ok]
  obtain s1 where c: "commit ?tx s = (None, s1)"
    using d by (cases "commit ?tx s") simp
  from commit_cases [OF c] have s1:
    "s1 = s\<lparr>heap := heap s @ [?new], current := length (heap s),
            nextVersionID := nextVersionID s + 1,
            versions := versions s @ [length (heap s)]\<rparr>"
    by simp
  from d c have r: "release ?tx s1 = (tx', s')" by simp
  note f = release_fields [OF r]
  have valid1: "snapshot ?tx < length (heap s1)" using valid s1 by simp
  have cur: "current s' = length (heap s)" using f s1 by simp
  have new: "heap s1 ! length (heap s) = ?new" using s1 by simp
  have ov: "data (heap s' ! current s') k =
              (case map_of (writes tx) k of
                 Some vv \<Rightarrow> Some vv
               | None \<Rightarrow> data (heap s ! current s) k)" for k
    using f cur new wf by (simp add: newVersion_def clone_def overlay_apply tx_wf_def)
  have stamp: "writerTxID vv = tx_id tx" if "map_of (writes tx) k = Some vv" for k vv
    using wf map_of_SomeD [OF that] by (auto simp: tx_wf_def)
  have frame: "data (heap s' ! current s') k = data (heap s ! current s) k"
    if "k \<notin> fst ` set (writes tx)" for k
    using that ov [of k] by (simp add: map_of_eq_None_iff [THEN iffD2])
  have rc: "refCount (heap s' ! current s') = 0"
    using release_refCount [OF r valid1, of "length (heap s)"] valid cur new
    by (simp add: newVersion_def)
  have old: "data (heap s' ! a) = data (heap s ! a)" if "a < length (heap s)" for a
    using f s1 that by (simp add: nth_append)
  show ?thesis
    using cur f s1 new ov stamp frame rc old
    by (simp add: newVersion_def)
qed

theorem Commit_publishes_overlay_witness:
  "tx_wf (txs (run [OpBeginTx None, OpBeginTx None, OpPut 0 ''counter'' 1,
                    OpPut 1 ''counter'' 2] (new_world :: (string, int) world)) ! 0) \<and>
   snapshot (txs (run [OpBeginTx None, OpBeginTx None, OpPut 0 ''counter'' 1,
                       OpPut 1 ''counter'' 2] (new_world :: (string, int) world)) ! 0)
     < length (heap (db (run [OpBeginTx None, OpBeginTx None, OpPut 0 ''counter'' 1,
                       OpPut 1 ''counter'' 2] (new_world :: (string, int) world)))) \<and>
   fst (Commit (txs (run [OpBeginTx None, OpBeginTx None, OpPut 0 ''counter'' 1,
                          OpPut 1 ''counter'' 2] (new_world :: (string, int) world)) ! 0)
          (db (run [OpBeginTx None, OpBeginTx None, OpPut 0 ''counter'' 1,
                    OpPut 1 ''counter'' 2] new_world))) = None \<and>
   data (heap (snd (snd (Commit (txs (run [OpBeginTx None, OpBeginTx None,
                 OpPut 0 ''counter'' 1, OpPut 1 ''counter'' 2]
                 (new_world :: (string, int) world)) ! 0)
          (db (run [OpBeginTx None, OpBeginTx None, OpPut 0 ''counter'' 1,
                    OpPut 1 ''counter'' 2] new_world))))) ! 1) ''counter''
     = Some \<lparr>vvalue = 1, writerTxID = 1\<rparr>"
  using
    Commit_publishes_overlay [of
      "txs (run [OpBeginTx None, OpBeginTx None, OpPut 0 ''counter'' 1,
                 OpPut 1 ''counter'' 2] (new_world :: (string, int) world)) ! 0"
      "db (run [OpBeginTx None, OpBeginTx None, OpPut 0 ''counter'' 1,
                OpPut 1 ''counter'' 2] new_world)"
      "fst (snd (Commit (txs (run [OpBeginTx None, OpBeginTx None, OpPut 0 ''counter'' 1,
                 OpPut 1 ''counter'' 2] (new_world :: (string, int) world)) ! 0)
          (db (run [OpBeginTx None, OpBeginTx None, OpPut 0 ''counter'' 1,
                OpPut 1 ''counter'' 2] new_world))))"
      "snd (snd (Commit (txs (run [OpBeginTx None, OpBeginTx None, OpPut 0 ''counter'' 1,
                 OpPut 1 ''counter'' 2] (new_world :: (string, int) world)) ! 0)
          (db (run [OpBeginTx None, OpBeginTx None, OpPut 0 ''counter'' 1,
                OpPut 1 ''counter'' 2] new_world))))"]
  unfolding world_two_writers
  by (simp add: op_defs tx_wf_def)

lemma term_calls_done:
  "state tx \<noteq> txActive \<Longrightarrow> term_calls cs tx s = (map done_result cs, tx, s)"
proof (induction cs)
  case Nil
  then show ?case by simp
next
  case (Cons c cs)
  then show ?case
    by (cases c) (simp_all add: Commit_def Rollback_def done_result_def)
qed

lemma Rollback_active:
  assumes "state tx = txActive" and "Rollback tx s = (tx', s')"
  shows "state tx' = txRolledBack \<and> snapshot tx' = snapshot tx \<and>
         (snapshot tx < length (heap s) \<longrightarrow>
            refCount (heap s' ! snapshot tx) = refCount (heap s ! snapshot tx) - 1)"
  using assms by (auto simp: Rollback_def release_def refCount_Add_refCount)

lemma Commit_active:
  assumes act: "state tx = txActive" and c: "Commit tx s = (r, tx', s')"
  shows "state tx' = (if ctxErr tx = None then txCommitted else txRolledBack) \<and>
         (snapshot tx < length (heap s) \<longrightarrow>
            refCount (heap s' ! snapshot tx) = refCount (heap s ! snapshot tx) - 1)"
proof (cases "ctxErr tx")
  case (Some e)
  with act c show ?thesis
    by (auto simp: Commit_def release_def refCount_Add_refCount)
next
  case None
  obtain r1 s1 where c1: "commit (tx\<lparr>state := txCommitted\<rparr>) s = (r1, s1)"
    by (cases "commit (tx\<lparr>state := txCommitted\<rparr>) s")
  from commit_cases [OF c1] have
    h: "length (heap s) \<le> length (heap s1)"
       "snapshot tx < length (heap s) \<longrightarrow> heap s1 ! snapshot tx = heap s ! snapshot tx"
    by (auto simp: nth_append)
  from act None c c1 h show ?thesis
    by (auto simp: Commit_def release_def refCount_Add_refCount)
qed

text \<open>
  C8. From an active transaction, any non-empty sequence of \<open>Commit\<close> and \<open>Rollback\<close>
  calls ends in the state and store that the first call alone produces: the first call
  makes the one terminal transition, each later \<open>Commit\<close> returns \<open>ErrTxDone\<close> and each
  later \<open>Rollback\<close> returns without effect, and the snapshot's refcount is one less
  than before the sequence.
\<close>

theorem termination_idempotent:
  assumes act: "state tx = txActive" and valid: "snapshot tx < length (heap s)"
    and run: "term_calls (c # cs) tx s = (rs, tx', s')"
  shows "(hd rs, tx', s') =
           (case c of CallCommit \<Rightarrow> Commit tx s | CallRollback \<Rightarrow> (None, Rollback tx s)) \<and>
         state tx' =
           (if c = CallCommit \<and> ctxErr tx = None then txCommitted else txRolledBack) \<and>
         tl rs = map done_result cs \<and>
         refCount (heap s' ! snapshot tx) = refCount (heap s ! snapshot tx) - 1"
proof (cases c)
  case CallCommit
  obtain r tx1 s1 where c1: "Commit tx s = (r, tx1, s1)"
    by (cases "Commit tx s")
  note a = Commit_active [OF act c1]
  then have "state tx1 \<noteq> txActive" by (simp split: if_splits)
  from term_calls_done [OF this, of cs s1] run c1 CallCommit
  have "rs = r # map done_result cs" "tx' = tx1" "s' = s1" by simp_all
  with a c1 valid CallCommit show ?thesis by simp
next
  case CallRollback
  obtain tx1 s1 where c1: "Rollback tx s = (tx1, s1)"
    by (cases "Rollback tx s")
  note a = Rollback_active [OF act c1]
  then have "state tx1 \<noteq> txActive" by simp
  from term_calls_done [OF this, of cs s1] run c1 CallRollback
  have "rs = None # map done_result cs" "tx' = tx1" "s' = s1" by simp_all
  with a c1 valid CallRollback show ?thesis by simp
qed

theorem termination_idempotent_witness:
  "state (txs (run [OpBeginTx None] (new_world :: (string, int) world)) ! 0) = txActive \<and>
   snapshot (txs (run [OpBeginTx None] (new_world :: (string, int) world)) ! 0)
     < length (heap (db (run [OpBeginTx None] (new_world :: (string, int) world)))) \<and>
   term_calls [CallRollback, CallRollback, CallCommit]
     (txs (run [OpBeginTx None] (new_world :: (string, int) world)) ! 0)
     (db (run [OpBeginTx None] new_world)) =
     ([None, None, Some ErrTxDone],
      \<lparr>tx_id = 1, snapshot = 0, writes = [], readSet = {}, state = txRolledBack,
         ctxErr = Some Canceled\<rparr>,
      \<lparr>heap = [\<lparr>v_id = 0, data = Map.empty, refCount = 0\<rparr>], current = 0,
         nextTxID = 1, nextVersionID = 0, activeTxs = [], versions = [0]\<rparr>)"
  using
    termination_idempotent [of
      "txs (run [OpBeginTx None] (new_world :: (string, int) world)) ! 0"
      "db (run [OpBeginTx None] new_world)" CallRollback "[CallRollback, CallCommit]"
      "[None, None, Some ErrTxDone]"
      "\<lparr>tx_id = 1, snapshot = 0, writes = [], readSet = {}, state = txRolledBack,
         ctxErr = Some Canceled\<rparr>"
      "\<lparr>heap = [\<lparr>v_id = 0, data = Map.empty, refCount = 0\<rparr>], current = 0,
         nextTxID = 1, nextVersionID = 0, activeTxs = [], versions = [0]\<rparr>"]
  unfolding world_begin
  by (simp add: op_defs)

section \<open>The reclaimer\<close>

text \<open>
  C2 (as amended). \<open>collectVersions\<close> takes the current version's id as
  \<open>minSnapshotID\<close>, whatever transactions are active: the registry of active
  transactions has no influence on the result. With that minimum it follows the
  specification's rule: it keeps, in order, the versions that are current, or whose
  refcount is positive, or whose id is at least the minimum, and drops the others;
  nothing else of the store changes.
\<close>

theorem collectVersions_retains:
  "collectVersions s = s\<lparr>versions := spec_retained_with (v_id (heap s ! current s)) s\<rparr> \<and>
   collectVersions (s\<lparr>activeTxs := metas\<rparr>) = (collectVersions s)\<lparr>activeTxs := metas\<rparr>"
proof -
  have "(v_id (heap s ! a) = v_id (heap s ! current s) \<or> 0 <s refCount (heap s ! a) \<or>
         v_id (heap s ! current s) \<le> v_id (heap s ! a)) =
        (a = current s \<or> 0 <s refCount (heap s ! a) \<or>
         v_id (heap s ! current s) \<le> v_id (heap s ! a))" for a
    by auto
  then show ?thesis
    by (simp add: collectVersions_def currentVersionID_def spec_retained_with_def Let_def)
qed

text \<open>
  C2 as stated fails: a reader holds version 0 while two writers commit versions 1 and 2.
  The smallest active snapshot id is 0, so the specification retains all three versions;
  \<open>collectVersions\<close> reclaims version 1.
\<close>

theorem collectVersions_counterexample:
  "versions (collectVersions (db (run [OpBeginTx None, OpBeginTx None, OpPut 1 ''a'' 1,
       OpCommit 1, OpBeginTx None, OpPut 2 ''a'' 2, OpCommit 2]
       (new_world :: (string, int) world)))) = [0, 2] \<and>
   active_snapshot_ids (run [OpBeginTx None, OpBeginTx None, OpPut 1 ''a'' 1,
       OpCommit 1, OpBeginTx None, OpPut 2 ''a'' 2, OpCommit 2]
       (new_world :: (string, int) world)) = [0] \<and>
   spec_retained (run [OpBeginTx None, OpBeginTx None, OpPut 1 ''a'' 1,
       OpCommit 1, OpBeginTx None, OpPut 2 ''a'' 2, OpCommit 2]
       (new_world :: (string, int) world)) = [0, 1, 2]"
  unfolding world_long_reader
  by (simp add: op_defs spec_retained_def spec_retained_with_def
      spec_min_active_snapshot_id_def active_snapshot_ids_def)

section \<open>The deadlock detector\<close>

text \<open>
  Nothing in the package assigns \<open>waitFor\<close>: \<open>BeginTx\<close> registers every transaction with
  \<open>waitFor = 0\<close> and the other operations only delete entries. So in every run the
  wait-for graph is empty, and a tick of the detector finds no cycle and selects no
  victim.
\<close>

lemma set_delete_subset: "set (AList.delete k al) \<subseteq> set al"
  by (auto simp: AList.delete_eq)

lemma activeTxs_commit [simp]: "activeTxs (snd (commit tx s)) = activeTxs s"
  by (cases "commit tx s") (auto dest: commit_cases)

lemma no_waits_release: "no_waits s \<Longrightarrow> no_waits (snd (release tx s))"
  using set_delete_subset [of "tx_id tx" "activeTxs s"]
  by (auto simp: no_waits_def release_def)

lemma no_waits_BeginTx: "no_waits s \<Longrightarrow> no_waits (snd (BeginTx parent s))"
  using set_update_subset [of "nextTxID s + 1" "\<lparr>meta_id = nextTxID s + 1, waitFor = 0\<rparr>" "activeTxs s"]
  by (auto simp: no_waits_def BeginTx_def Let_def)

lemma no_waits_commit: "no_waits s \<Longrightarrow> no_waits (snd (commit tx s))"
  by (simp add: no_waits_def)

lemma no_waits_Rollback: "no_waits s \<Longrightarrow> no_waits (snd (Rollback tx s))"
  by (simp add: Rollback_def no_waits_release)

lemma no_waits_Put: "no_waits s \<Longrightarrow> no_waits (snd (snd (Put tx k v s)))"
  by (simp add: Put_def no_waits_Rollback split: option.splits)

lemma no_waits_Commit: "no_waits s \<Longrightarrow> no_waits (snd (snd (Commit tx s)))"
  by (simp add: Commit_def Let_def case_prod_beta no_waits_release no_waits_commit
      split: option.splits)

lemma no_waits_step: "no_waits (db w) \<Longrightarrow> no_waits (db (step x w))"
proof (cases x)
  case OpGC
  assume "no_waits (db w)"
  with OpGC show ?thesis by (simp add: no_waits_def collectVersions_def Let_def)
qed (simp_all add: case_prod_beta no_waits_BeginTx no_waits_Put no_waits_Commit
      no_waits_Rollback)

lemma no_waits_run: "no_waits (db w) \<Longrightarrow> no_waits (db (run ops w))"
  by (induction ops arbitrary: w) (simp_all add: no_waits_step)

lemma detector_never_finds_a_cycle:
  "detectDeadlocks (db (run ops new_world)) = (None, db (run ops new_world))"
proof -
  have "no_waits (db (new_world :: ('a, 'b) world))"
    by (simp add: no_waits_def new_world_def NewMVCCMap_def)
  from no_waits_run [OF this, of ops]
  have "wait_graph (activeTxs (db (run ops (new_world :: ('a, 'b) world)))) = []"
    by (auto simp: no_waits_def wait_graph_def filter_empty_conv)
  then show ?thesis by (simp add: detectDeadlocks_def)
qed

text \<open>
  On a wait-for graph written down by hand, \<open>dfs\<close> does not return the stack suffix
  from the re-entered node: every call on the stack appends its id on the way out. With
  5 waiting for 1, 1 for 2 and 2 for 1, and the loop starting at 5, the list handed to
  \<open>resolveDeadlock\<close> is \<open>[1, 2, 1, 5]\<close> and the victim is 5, to which no edge leads.
\<close>

lemma dfs_returns_whole_stack:
  "detectDeadlocks
     \<lparr>heap = [\<lparr>v_id = 0, data = (Map.empty :: string \<rightharpoonup> int versionedValue), refCount = 3\<rparr>],
        current = 0, nextTxID = 5, nextVersionID = 0,
        activeTxs = [(5, \<lparr>meta_id = 5, waitFor = 1\<rparr>), (1, \<lparr>meta_id = 1, waitFor = 2\<rparr>),
                     (2, \<lparr>meta_id = 2, waitFor = 1\<rparr>)],
        versions = [0]\<rparr> =
     (Some ([1, 2, 1, 5], 5),
      \<lparr>heap = [\<lparr>v_id = 0, data = Map.empty, refCount = 3\<rparr>],
        current = 0, nextTxID = 5, nextVersionID = 0,
        activeTxs = [(5, \<lparr>meta_id = 5, waitFor = 1\<rparr>), (1, \<lparr>meta_id = 1, waitFor = 2\<rparr>),
                     (2, \<lparr>meta_id = 2, waitFor = 1\<rparr>)],
        versions = [0]\<rparr>) \<and>
   wait_graph [(5, \<lparr>meta_id = 5, waitFor = 1\<rparr>), (1, \<lparr>meta_id = 1, waitFor = 2\<rparr>),
               (2, \<lparr>meta_id = 2, waitFor = 1\<rparr>)] = [(5, 1), (1, 2), (2, 1)]"
  by (simp add: detect_defs)

text \<open>
  C3 (as amended). An active transaction whose context has ended gets \<open>ErrTxCanceled\<close>,
  wrapping the context's error, from its next \<open>Put\<close> and from its next \<open>Commit\<close>, and
  is rolled back by either. \<open>Get\<close> has no error result and does not look at the context:
  it returns what it returns without the cancellation and leaves the transaction active.
\<close>

theorem canceled_at_next_Put_or_Commit:
  assumes "state tx = txActive" and "ctxErr tx = Some e"
  shows "fst (Put tx k v s) = Some (ErrTxCanceled e) \<and>
         state (fst (snd (Put tx k v s))) = txRolledBack \<and>
         fst (Commit tx s) = Some (ErrTxCanceled e) \<and>
         state (fst (snd (Commit tx s))) = txRolledBack \<and>
         fst (Get tx k s) = fst (Get (tx\<lparr>ctxErr := None\<rparr>) k s) \<and>
         state (snd (Get tx k s)) = txActive \<and>
         ctxErr (snd (Get tx k s)) = Some e"
  using assms
  by (simp add: Put_def Commit_def Rollback_def Get_def release_def checkActive_def
      split: option.splits)

theorem canceled_at_next_Put_or_Commit_witness:
  "state (txs (run [OpBeginTx None, OpPut 0 ''x'' 42, OpCtxDone 0 DeadlineExceeded]
                 (new_world :: (string, int) world)) ! 0) = txActive \<and>
   ctxErr (txs (run [OpBeginTx None, OpPut 0 ''x'' 42, OpCtxDone 0 DeadlineExceeded]
                 (new_world :: (string, int) world)) ! 0) = Some DeadlineExceeded \<and>
   fst (Put (txs (run [OpBeginTx None, OpPut 0 ''x'' 42, OpCtxDone 0 DeadlineExceeded]
                 (new_world :: (string, int) world)) ! 0) ''y'' 7
          (db (run [OpBeginTx None, OpPut 0 ''x'' 42, OpCtxDone 0 DeadlineExceeded] new_world)))
     = Some (ErrTxCanceled DeadlineExceeded) \<and>
   fst (Commit (txs (run [OpBeginTx None, OpPut 0 ''x'' 42, OpCtxDone 0 DeadlineExceeded]
                 (new_world :: (string, int) world)) ! 0)
          (db (run [OpBeginTx None, OpPut 0 ''x'' 42, OpCtxDone 0 DeadlineExceeded] new_world)))
     = Some (ErrTxCanceled DeadlineExceeded)"
  using canceled_at_next_Put_or_Commit [of
      "txs (run [OpBeginTx None, OpPut 0 ''x'' 42, OpCtxDone 0 DeadlineExceeded]
              (new_world :: (string, int) world)) ! 0"
      DeadlineExceeded "''y''" 7
      "db (run [OpBeginTx None, OpPut 0 ''x'' 42, OpCtxDone 0 DeadlineExceeded] new_world)"]
  unfolding world_deadline
  by simp

text \<open>
  C3 as stated fails. \<open>Get\<close> on a transaction whose context has ended returns the
  buffered value. And \<open>resolveDeadlock\<close> fires nothing: it has the victim's \<open>txMeta\<close>
  only, which holds no cancel function, so after a tick that found the cycle
  \<open>1 \<rightarrow> 2 \<rightarrow> 1\<close> and chose 2, the \<open>Put\<close> and the \<open>Commit\<close> of transaction 2 succeed.
\<close>

theorem victim_not_canceled_counterexample:
  "fst (Get (txs (run [OpBeginTx None, OpPut 0 ''x'' 42, OpCtxDone 0 DeadlineExceeded]
                 (new_world :: (string, int) world)) ! 0) ''x''
          (db (run [OpBeginTx None, OpPut 0 ''x'' 42, OpCtxDone 0 DeadlineExceeded] new_world)))
     = Some 42 \<and>
   state (snd (Get (txs (run [OpBeginTx None, OpPut 0 ''x'' 42, OpCtxDone 0 DeadlineExceeded]
                 (new_world :: (string, int) world)) ! 0) ''x''
          (db (run [OpBeginTx None, OpPut 0 ''x'' 42, OpCtxDone 0 DeadlineExceeded] new_world))))
     = txActive \<and>
   fst (detectDeadlocks
     \<lparr>heap = [\<lparr>v_id = 0, data = (Map.empty :: string \<rightharpoonup> int versionedValue), refCount = 2\<rparr>],
        current = 0, nextTxID = 2, nextVersionID = 0,
        activeTxs = [(1, \<lparr>meta_id = 1, waitFor = 2\<rparr>), (2, \<lparr>meta_id = 2, waitFor = 1\<rparr>)],
        versions = [0]\<rparr>) = Some ([1, 2, 1], 2) \<and>
   fst (Put \<lparr>tx_id = 2, snapshot = 0, writes = [], readSet = {}, state = txActive,
             ctxErr = None\<rparr> ''k'' 7
          (snd (detectDeadlocks
     \<lparr>heap = [\<lparr>v_id = 0, data = (Map.empty :: string \<rightharpoonup> int versionedValue), refCount = 2\<rparr>],
        current = 0, nextTxID = 2, nextVersionID = 0,
        activeTxs = [(1, \<lparr>meta_id = 1, waitFor = 2\<rparr>), (2, \<lparr>meta_id = 2, waitFor = 1\<rparr>)],
        versions = [0]\<rparr>))) = None \<and>
   fst (Commit \<lparr>tx_id = 2, snapshot = 0, writes = [], readSet = {}, state = txActive,
             ctxErr = None\<rparr>
          (snd (detectDeadlocks
     \<lparr>heap = [\<lparr>v_id = 0, data = (Map.empty :: string \<rightharpoonup> int versionedValue), refCount = 2\<rparr>],
        current = 0, nextTxID = 2, nextVersionID = 0,
        activeTxs = [(1, \<lparr>meta_id = 1, waitFor = 2\<rparr>), (2, \<lparr>meta_id = 2, waitFor = 1\<rparr>)],
        versions = [0]\<rparr>))) = None"
  unfolding world_deadline
  by (simp add: detect_defs op_defs)

section \<open>Tx.Get and snapshot isolation\<close>

lemma heap_extends_refl [simp]: "heap_extends s s"
  by (simp add: heap_extends_def)















section \<open>The fresh store and transaction ids\<close>

lemma run_append: "run (xs @ ys) w = run ys (run xs w)"
  by (induction xs arbitrary: w) simp_all

lemma fresh_new_world: "fresh new_world"
  by (simp add: fresh_def new_world_def NewMVCCMap_def newVersion_def)

lemma fresh_release:
  "length (heap s) = 1 \<and> current s = 0 \<and> versions s = [0] \<and>
     v_id (heap s ! 0) = 0 \<and> data (heap s ! 0) = Map.empty \<Longrightarrow>
   (let s' = snd (release tx s) in
    length (heap s') = 1 \<and> current s' = 0 \<and> versions s' = [0] \<and>
     v_id (heap s' ! 0) = 0 \<and> data (heap s' ! 0) = Map.empty) \<and>
   snapshot (fst (release tx s)) = snapshot tx"
  by (simp add: release_def Let_def)

lemma fresh_step: "fresh w \<Longrightarrow> \<not> is_commit x \<Longrightarrow> fresh (step x w)"
proof (cases x)
  case (OpBeginTx parent)
  assume "fresh w"
  with OpBeginTx show ?thesis
    by (auto simp: fresh_def BeginTx_def Let_def)
next
  case (OpGet i k)
  assume f: "fresh w"
  have "snapshot (snd (Get tx k s)) = snapshot tx" for tx :: "('a, 'b) Tx" and s
    by (simp add: Get_def split: option.splits)
  with f OpGet show ?thesis
    by (auto simp: fresh_def dest!: set_update_subset_insert [THEN subsetD])
next
  case (OpPut i k v)
  assume f: "fresh w"
  show ?thesis
  proof (cases "i < length (txs w)")
    case True
    then have s0: "snapshot (txs w ! i) = 0" using f by (simp add: fresh_def)
    from f fresh_release [of "db w" "(txs w ! i)\<lparr>state := txRolledBack\<rparr>"]
    have "fresh \<lparr>db = snd (snd (Put (txs w ! i) k v (db w))), txs = txs w\<rparr> \<and>
          snapshot (fst (snd (Put (txs w ! i) k v (db w)))) = 0"
      using s0
      by (auto simp: fresh_def Put_def Rollback_def checkActive_def Let_def split: option.splits)
    with True OpPut show ?thesis
      by (auto simp: fresh_def case_prod_beta dest!: set_update_subset_insert [THEN subsetD])
  next
    case False
    with f OpPut show ?thesis by simp
  qed
next
  case (OpCommit i)
  assume "\<not> is_commit x"
  with OpCommit show ?thesis by simp
next
  case (OpRollback i)
  assume f: "fresh w"
  show ?thesis
  proof (cases "i < length (txs w)")
    case True
    then have s0: "snapshot (txs w ! i) = 0" using f by (simp add: fresh_def)
    from f fresh_release [of "db w" "(txs w ! i)\<lparr>state := txRolledBack\<rparr>"]
    have "fresh \<lparr>db = snd (Rollback (txs w ! i) (db w)), txs = txs w\<rparr> \<and>
          snapshot (fst (Rollback (txs w ! i) (db w))) = 0"
      using s0 by (auto simp: fresh_def Rollback_def Let_def)
    with True OpRollback show ?thesis
      by (auto simp: fresh_def case_prod_beta dest!: set_update_subset_insert [THEN subsetD])
  next
    case False
    with f OpRollback show ?thesis by simp
  qed
next
  case (OpCtxDone i e)
  assume f: "fresh w"
  have "snapshot (ctx_done e tx) = snapshot tx" for tx :: "('a, 'b) Tx"
    by (simp add: ctx_done_def split: option.splits)
  with f OpCtxDone show ?thesis
    by (auto simp: fresh_def dest!: set_update_subset_insert [THEN subsetD])
next
  case OpGC
  assume "fresh w"
  with OpGC show ?thesis
    by (simp add: fresh_def collectVersions_def currentVersionID_def Let_def)
next
  case OpDetect
  assume "fresh w"
  with OpDetect show ?thesis by (simp add: fresh_def)
qed

lemma fresh_run: "fresh w \<Longrightarrow> \<forall>x \<in> set ops. \<not> is_commit x \<Longrightarrow> fresh (run ops w)"
  by (induction ops arbitrary: w) (simp_all add: fresh_step)

lemma fresh_Get:
  assumes "fresh w" and "i < length (txs w)"
  shows "fst (Get (txs w ! i) key (db w)) =
           (if state (txs w ! i) \<noteq> txActive then None
            else map_option vvalue (map_of (writes (txs w ! i)) key))"
proof -
  from assms have "snapshot (txs w ! i) = 0" "data (heap (db w) ! 0) = Map.empty"
    by (simp_all add: fresh_def)
  then show ?thesis
    by (simp add: Get_def checkActive_def split: option.splits)
qed

lemma ids_ok_alt: "ids_ok w \<longleftrightarrow> heap_ids_ok (db w) \<and> (\<forall>tx \<in> set (txs w). tx_ids_ok tx)"
  by (auto simp: ids_ok_def heap_ids_ok_def tx_ids_ok_def)

lemma overlay_Some:
  "overlay ws m k = Some vv \<Longrightarrow> vv \<in> snd ` set ws \<or> m k = Some vv"
proof (induction ws arbitrary: m)
  case Nil
  then show ?case by simp
next
  case (Cons kv ws)
  from Cons.prems have "overlay ws (m(fst kv \<mapsto> snd kv)) k = Some vv" by simp
  from Cons.IH [OF this] show ?case
    by (cases "k = fst kv") auto
qed

lemma heap_ids_ok_release: "heap_ids_ok s \<Longrightarrow> heap_ids_ok (snd (release tx s))"
  by (simp add: heap_ids_ok_def release_def)

lemma tx_ids_ok_release: "tx_ids_ok tx \<Longrightarrow> tx_ids_ok (fst (release tx s))"
  by (simp add: tx_ids_ok_def release_def)

lemma tx_ids_ok_state [simp]: "tx_ids_ok (tx\<lparr>state := st\<rparr>) = tx_ids_ok tx"
  by (simp add: tx_ids_ok_def)

lemma heap_ids_ok_commit:
  assumes "heap_ids_ok s" and "tx_ids_ok tx"
  shows "heap_ids_ok (snd (commit tx s))"
proof (cases "fst (commit tx s) = Some ErrConflict")
  case True
  then have "snd (commit tx s) = s"
    by (cases "commit tx s") (auto dest: commit_cases)
  with assms show ?thesis by simp
next
  case False
  let ?new = "newVersion (nextVersionID s + 1) (overlay (writes tx) (clone (heap s ! current s)))"
  from False have s': "snd (commit tx s) =
      s\<lparr>heap := heap s @ [?new], current := length (heap s),
        nextVersionID := nextVersionID s + 1, versions := versions s @ [length (heap s)]\<rparr>"
    by (cases "commit tx s") (auto dest: commit_cases)
  have new: "writerTxID vv \<noteq> 0" if "data ?new k = Some vv" for k vv
  proof -
    from that have "overlay (writes tx) (data (heap s ! current s)) k = Some vv"
      by (simp add: newVersion_def clone_def)
    from overlay_Some [OF this] assms show ?thesis
      by (auto simp: tx_ids_ok_def heap_ids_ok_def)
  qed
  have "writerTxID vv \<noteq> 0"
    if "a < Suc (length (heap s))" "data ((heap s @ [?new]) ! a) k = Some vv" for a k vv
  proof (cases "a < length (heap s)")
    case True
    with that assms(1) show ?thesis by (auto simp: nth_append heap_ids_ok_def)
  next
    case False
    with that have "a = length (heap s)" by simp
    with that new show ?thesis by simp
  qed
  then show ?thesis unfolding s' by (auto simp: heap_ids_ok_def)
qed

lemma Commit_ids_ok:
  assumes "heap_ids_ok s" and "tx_ids_ok tx"
  shows "heap_ids_ok (snd (snd (Commit tx s))) \<and> tx_ids_ok (fst (snd (Commit tx s)))"
proof -
  have "heap_ids_ok (snd (release tx' (snd (commit (tx\<lparr>state := txCommitted\<rparr>) s))))" for tx'
    by (rule heap_ids_ok_release [OF heap_ids_ok_commit]) (simp_all add: assms)
  with assms show ?thesis
    by (simp add: Commit_def Let_def case_prod_beta heap_ids_ok_release tx_ids_ok_release
        split: option.splits)
qed

lemma Rollback_ids_ok:
  assumes "heap_ids_ok s" and "tx_ids_ok tx"
  shows "heap_ids_ok (snd (Rollback tx s)) \<and> tx_ids_ok (fst (Rollback tx s))"
  using assms by (simp add: Rollback_def heap_ids_ok_release tx_ids_ok_release)

lemma Put_ids_ok:
  assumes "heap_ids_ok s" and "tx_ids_ok tx"
  shows "heap_ids_ok (snd (snd (Put tx k v s))) \<and> tx_ids_ok (fst (snd (Put tx k v s)))"
proof -
  have "tx_ids_ok (tx\<lparr>writes := AList.update k \<lparr>vvalue = v, writerTxID = tx_id tx\<rparr> (writes tx)\<rparr>)"
    using assms(2) set_update_subset [of k "\<lparr>vvalue = v, writerTxID = tx_id tx\<rparr>" "writes tx"]
    by (auto simp: tx_ids_ok_def)
  with assms Rollback_ids_ok [OF assms] show ?thesis
    by (simp add: Put_def split: option.splits)
qed

lemma BeginTx_ids_ok:
  assumes "heap_ids_ok s" and "nextTxID s + 1 \<noteq> 0"
  shows "heap_ids_ok (snd (BeginTx parent s)) \<and> tx_ids_ok (fst (BeginTx parent s))"
  using assms by (simp add: BeginTx_def Let_def heap_ids_ok_def tx_ids_ok_def)

lemma Get_ids_ok: "tx_ids_ok tx \<Longrightarrow> tx_ids_ok (snd (Get tx k s))"
  by (simp add: Get_def tx_ids_ok_def split: option.splits)

lemma ctx_done_ids_ok: "tx_ids_ok tx \<Longrightarrow> tx_ids_ok (ctx_done e tx)"
  by (simp add: ctx_done_def tx_ids_ok_def split: option.splits)

lemma list_all_update:
  "\<forall>x \<in> set xs. P x \<Longrightarrow> P y \<Longrightarrow> \<forall>x \<in> set (xs[i := y]). P x"
  using set_update_subset_insert [of xs i y] by auto

lemma ids_ok_update:
  assumes "heap_ids_ok s'" and "\<forall>tx \<in> set txs0. tx_ids_ok tx" and "tx_ids_ok tx'"
  shows "ids_ok \<lparr>db = s', txs = txs0[i := tx']\<rparr>"
proof -
  from list_all_update [OF assms(2), of tx' i] assms(3)
  have "\<forall>tx \<in> set (txs0[i := tx']). tx_ids_ok tx" by blast
  with assms(1) show ?thesis by (simp add: ids_ok_alt)
qed

lemma ids_ok_step:
  assumes ok: "ids_ok w" and nowrap: "is_begin x \<longrightarrow> nextTxID (db w) + 1 \<noteq> 0"
  shows "ids_ok (step x w)"
proof -
  from ok have h: "heap_ids_ok (db w)" and t: "\<forall>tx \<in> set (txs w). tx_ids_ok tx"
    by (simp_all add: ids_ok_alt)
  have ti: "tx_ids_ok (txs w ! i)" if "i < length (txs w)" for i
    using t that by simp
  have w: "\<lparr>db = db w, txs = txs w\<rparr> = w" by simp
  show ?thesis
  proof (cases x)
    case (OpBeginTx parent)
    with nowrap have "nextTxID (db w) + 1 \<noteq> 0" by simp
    from BeginTx_ids_ok [OF h this, of parent] t
    have "ids_ok \<lparr>db = snd (BeginTx parent (db w)), txs = txs w @ [fst (BeginTx parent (db w))]\<rparr>"
      by (simp add: ids_ok_alt)
    with OpBeginTx show ?thesis by (simp add: case_prod_beta)
  next
    case (OpGet i k)
    show ?thesis
    proof (cases "i < length (txs w)")
      case True
      from ids_ok_update [OF h t Get_ids_ok [OF ti [OF True]], of i k "db w"]
      show ?thesis using True OpGet
        by simp (metis w world.surjective world.update_convs(2))
    next
      case False
      with ok OpGet show ?thesis by simp
    qed
  next
    case (OpPut i k v)
    show ?thesis
    proof (cases "i < length (txs w)")
      case True
      note p = Put_ids_ok [OF h ti [OF True], of k v]
      from ids_ok_update [OF p [THEN conjunct1] t p [THEN conjunct2], of i]
      show ?thesis using True OpPut by (simp add: case_prod_beta)
    next
      case False
      with ok OpPut show ?thesis by simp
    qed
  next
    case (OpCommit i)
    show ?thesis
    proof (cases "i < length (txs w)")
      case True
      note p = Commit_ids_ok [OF h ti [OF True]]
      from ids_ok_update [OF p [THEN conjunct1] t p [THEN conjunct2], of i]
      show ?thesis using True OpCommit by (simp add: case_prod_beta)
    next
      case False
      with ok OpCommit show ?thesis by simp
    qed
  next
    case (OpRollback i)
    show ?thesis
    proof (cases "i < length (txs w)")
      case True
      note p = Rollback_ids_ok [OF h ti [OF True]]
      from ids_ok_update [OF p [THEN conjunct1] t p [THEN conjunct2], of i]
      show ?thesis using True OpRollback by (simp add: case_prod_beta)
    next
      case False
      with ok OpRollback show ?thesis by simp
    qed
  next
    case (OpCtxDone i e)
    show ?thesis
    proof (cases "i < length (txs w)")
      case True
      from ids_ok_update [OF h t ctx_done_ids_ok [OF ti [OF True]], of i e]
      show ?thesis using True OpCtxDone
        by simp (metis w world.surjective world.update_convs(2))
    next
      case False
      with ok OpCtxDone show ?thesis by simp
    qed
  next
    case OpGC
    from h have "heap_ids_ok (collectVersions (db w))"
      by (simp add: heap_ids_ok_def collectVersions_def Let_def)
    with t OpGC show ?thesis by (simp add: ids_ok_alt)
  next
    case OpDetect
    with ok show ?thesis by (simp add: ids_ok_alt)
  qed
qed

lemma nextTxID_release [simp]: "nextTxID (snd (release tx s)) = nextTxID s"
  by (simp add: release_def unregisterTx_def)

lemma nextTxID_commit [simp]: "nextTxID (snd (commit tx s)) = nextTxID s"
  by (cases "commit tx s") (auto dest: commit_cases)

lemma nextTxID_step:
  "nextTxID (db (step x w)) = (if is_begin x then nextTxID (db w) + 1 else nextTxID (db w))"
  by (cases x)
    (simp_all add: case_prod_beta BeginTx_def Put_def Commit_def Rollback_def Let_def
      collectVersions_def split: option.splits)

lemma ids_ok_run:
  "ids_ok w \<Longrightarrow> unat (nextTxID (db w)) + length (filter is_begin ops) < 2 ^ 64 \<Longrightarrow>
   ids_ok (run ops w)"
proof (induction ops arbitrary: w)
  case Nil
  then show ?case by simp
next
  case (Cons x ops)
  have nowrap: "unat (nextTxID (db w) + 1) = unat (nextTxID (db w)) + 1" if "is_begin x"
    using that Cons.prems(2) by (simp add: unat_word_ariths)
  then have "is_begin x \<longrightarrow> nextTxID (db w) + 1 \<noteq> 0"
    by (auto simp: unat_eq_zero [symmetric] simp del: unat_eq_zero)
  from ids_ok_step [OF Cons.prems(1) this] have ok: "ids_ok (step x w)" .
  have "unat (nextTxID (db (step x w))) + length (filter is_begin ops) < 2 ^ 64"
    using Cons.prems(2) nowrap by (cases "is_begin x") (simp_all add: nextTxID_step)
  from Cons.IH [OF ok this] show ?case by simp
qed

lemma ids_ok_new_world: "ids_ok new_world"
  by (simp add: ids_ok_def new_world_def NewMVCCMap_def newVersion_def)

lemma word_ge_1: "1 \<le> (x :: uint64) \<longleftrightarrow> x \<noteq> 0"
  by (simp add: not_less [symmetric])

lemma nextTxID_run:
  "nextTxID (db (run ops w)) = nextTxID (db w) + of_nat (length (filter is_begin ops))"
  by (induction ops arbitrary: w) (simp_all add: nextTxID_step)

lemma length_txs_step:
  "length (txs (step x w)) = (if is_begin x then Suc (length (txs w)) else length (txs w))"
  by (cases x) (simp_all add: case_prod_beta)

lemma length_txs_run:
  "length (txs (run ops w)) = length (txs w) + length (filter is_begin ops)"
  by (induction ops arbitrary: w) (simp_all add: length_txs_step)

lemma wrapped_id_published:
  fixes w0 :: "(string, int) world"
  assumes f: "fresh w0" and n: "nextTxID (db w0) + 1 = 0" and l: "length (txs w0) = N"
  shows "data (heap (db (run [OpBeginTx None, OpPut N ''k'' 7, OpCommit N] w0)) !
               current (db (run [OpBeginTx None, OpPut N ''k'' 7, OpCommit N] w0))) ''k''
         = Some \<lparr>vvalue = 7, writerTxID = 0\<rparr>"
proof -
  define tx0 :: "(string, int) Tx" where
    "tx0 = \<lparr>tx_id = 0, snapshot = 0, writes = [], readSet = {}, state = txActive, ctxErr = None\<rparr>"
  define w1 where "w1 = step (OpBeginTx None) w0"
  have f1: "fresh w1" unfolding w1_def by (rule fresh_step [OF f]) simp
  have t1: "txs w1 = txs w0 @ [tx0]"
    using f n by (simp add: w1_def tx0_def BeginTx_def Let_def fresh_def)
  have nth: "(txs w0 @ [tx0]) ! N = tx0" "N < length (txs w0 @ [tx0])"
    using l by (auto simp: nth_append)
  define w2 where "w2 = step (OpPut N ''k'' 7) w1"
  have f2: "fresh w2" unfolding w2_def by (rule fresh_step [OF f1]) simp
  have t2: "txs w2 ! N = tx0\<lparr>writes := [(''k'', \<lparr>vvalue = 7, writerTxID = 0\<rparr>)]\<rparr>"
    using nth by (simp add: w2_def t1 Put_def checkActive_def) (simp add: tx0_def)
  have "length (txs w2) = length (txs w1)"
    unfolding w2_def by (simp only: length_txs_step is_begin.simps if_False)
  with nth t1 have l2: "N < length (txs w2)" by simp
  from f2 have h: "length (heap (db w2)) = 1" "current (db w2) = 0"
      "data (heap (db w2) ! 0) = Map.empty"
    by (simp_all add: fresh_def)
  have "run [OpBeginTx None, OpPut N ''k'' 7, OpCommit N] w0 = step (OpCommit N) w2"
    by (simp add: w1_def w2_def)
  moreover have "data (heap (db (step (OpCommit N) w2)) ! current (db (step (OpCommit N) w2))) ''k''
         = Some \<lparr>vvalue = 7, writerTxID = 0\<rparr>"
    using l2 h
    by (simp add: t2 tx0_def Commit_def commit_def conflict_at_def release_def Let_def
        newVersion_def clone_def nth_append)
  ultimately show ?thesis by simp
qed

text \<open>
  C10 (as amended). \<open>NewMVCCMap\<close> holds exactly the version with id 0 and the empty map,
  so \<open>VersionCount\<close> is 1, and the first transaction gets id 1. After any calls that
  include no \<open>Commit\<close>, \<open>VersionCount\<close> is still 1 and a \<open>Get\<close> returns absent for every
  key, except in a transaction that is still active and has itself \<open>Put\<close> the key: there
  it returns the value of the transaction's buffered entry. As long as fewer than
  \<open>2 ^ 64\<close> transactions have begun, every transaction id and the \<open>writerTxID\<close> of every
  entry of every version is at least 1.
\<close>

theorem fresh_store_and_ids:
  "heap (NewMVCCMap :: ('k, 'v) MVCCMap) = [\<lparr>v_id = 0, data = Map.empty, refCount = 0\<rparr>] \<and>
   current (NewMVCCMap :: ('k, 'v) MVCCMap) = 0 \<and>
   versions (NewMVCCMap :: ('k, 'v) MVCCMap) = [0] \<and>
   VersionCount (NewMVCCMap :: ('k, 'v) MVCCMap) = 1 \<and>
   tx_id (fst (BeginTx parent (NewMVCCMap :: ('k, 'v) MVCCMap))) = 1 \<and>
   ((\<forall>x \<in> set ops. \<not> is_commit x) \<longrightarrow>
      VersionCount (db (run ops (new_world :: ('k, 'v) world))) = 1 \<and>
      (\<forall>i < length (txs (run ops (new_world :: ('k, 'v) world))). \<forall>key.
         fst (Get (txs (run ops new_world) ! i) key (db (run ops new_world))) =
           (if state (txs (run ops new_world) ! i) \<noteq> txActive then None
            else map_option vvalue (map_of (writes (txs (run ops new_world) ! i)) key)))) \<and>
   (length (filter is_begin ops) < 2 ^ 64 \<longrightarrow>
      (\<forall>i < length (txs (run ops (new_world :: ('k, 'v) world))).
         1 \<le> tx_id (txs (run ops new_world) ! i)) \<and>
      (\<forall>a < length (heap (db (run ops (new_world :: ('k, 'v) world)))). \<forall>key vv.
         data (heap (db (run ops new_world)) ! a) key = Some vv \<longrightarrow> 1 \<le> writerTxID vv))"
proof (intro conjI impI)
  assume nc: "\<forall>x \<in> set ops. \<not> is_commit x"
  from fresh_run [OF fresh_new_world nc]
  have f: "fresh (run ops (new_world :: ('k, 'v) world))" .
  then show "VersionCount (db (run ops (new_world :: ('k, 'v) world))) = 1"
    by (simp add: fresh_def VersionCount_def)
  show "\<forall>i < length (txs (run ops (new_world :: ('k, 'v) world))). \<forall>key.
         fst (Get (txs (run ops new_world) ! i) key (db (run ops new_world))) =
           (if state (txs (run ops new_world) ! i) \<noteq> txActive then None
            else map_option vvalue (map_of (writes (txs (run ops new_world) ! i)) key))"
    using fresh_Get [OF f] by blast
next
  assume "length (filter is_begin ops) < 2 ^ 64"
  then have ok: "ids_ok (run ops (new_world :: ('k, 'v) world))"
    by (intro ids_ok_run ids_ok_new_world) (simp add: new_world_def NewMVCCMap_def)
  then show "\<forall>i < length (txs (run ops (new_world :: ('k, 'v) world))).
         1 \<le> tx_id (txs (run ops new_world) ! i)"
    by (simp add: ids_ok_def word_ge_1)
  from ok show "\<forall>a < length (heap (db (run ops (new_world :: ('k, 'v) world)))). \<forall>key vv.
         data (heap (db (run ops new_world)) ! a) key = Some vv \<longrightarrow> 1 \<le> writerTxID vv"
    by (simp add: ids_ok_def word_ge_1)
qed (simp_all add: NewMVCCMap_def newVersion_def VersionCount_def BeginTx_def Let_def)

theorem fresh_store_and_ids_witness:
  "VersionCount (db (run [OpBeginTx None, OpPut 0 ''x'' 42, OpGet 0 ''x'', OpGC]
                       (new_world :: (string, int) world))) = 1 \<and>
   fst (Get (txs (run [OpBeginTx None, OpPut 0 ''x'' 42, OpGet 0 ''x'', OpGC]
                       (new_world :: (string, int) world)) ! 0) ''y''
          (db (run [OpBeginTx None, OpPut 0 ''x'' 42, OpGet 0 ''x'', OpGC] new_world))) = None \<and>
   fst (Get (txs (run [OpBeginTx None, OpPut 0 ''x'' 42, OpGet 0 ''x'', OpGC]
                       (new_world :: (string, int) world)) ! 0) ''x''
          (db (run [OpBeginTx None, OpPut 0 ''x'' 42, OpGet 0 ''x'', OpGC] new_world)))
     = Some 42 \<and>
   fst (Get (txs (run [OpBeginTx None, OpPut 0 ''x'' 42, OpRollback 0]
                       (new_world :: (string, int) world)) ! 0) ''x''
          (db (run [OpBeginTx None, OpPut 0 ''x'' 42, OpRollback 0] new_world))) = None \<and>
   length (filter is_begin [OpBeginTx None, OpPut 0 ''x'' (42 :: int), OpCommit 0 :: (string, int) op])
     < 2 ^ 64 \<and>
   data (heap (db (run [OpBeginTx None, OpPut 0 ''x'' 42, OpCommit 0]
                       (new_world :: (string, int) world))) ! 1) ''x''
     = Some \<lparr>vvalue = 42, writerTxID = 1\<rparr> \<and>
   (1 :: uint64) \<le> writerTxID \<lparr>vvalue = 42 :: int, writerTxID = 1\<rparr>"
  using
    fresh_store_and_ids [of None
      "[OpBeginTx None, OpPut 0 ''x'' 42, OpGet 0 ''x'', OpGC] :: (string, int) op list"]
    fresh_store_and_ids [of None
      "[OpBeginTx None, OpPut 0 ''x'' 42, OpRollback 0] :: (string, int) op list"]
    fresh_store_and_ids [of None
      "[OpBeginTx None, OpPut 0 ''x'' 42, OpCommit 0] :: (string, int) op list"]
  by (simp add: op_defs VersionCount_def)

text \<open>
  C10 as stated fails twice. Before any commit, a transaction that has \<open>Put\<close> a key gets
  its own value back from \<open>Get\<close>. And the id counter is a \<open>uint64\<close>: the transaction that
  begins after \<open>2 ^ 64 - 1\<close> others gets id 0, and its commit publishes an entry whose
  \<open>writerTxID\<close> is 0.
\<close>

theorem fresh_store_counterexample:
  "VersionCount (db (run [OpBeginTx None, OpPut 0 ''x'' 42] (new_world :: (string, int) world))) = 1 \<and>
   fst (Get (txs (run [OpBeginTx None, OpPut 0 ''x'' 42] (new_world :: (string, int) world)) ! 0)
          ''x'' (db (run [OpBeginTx None, OpPut 0 ''x'' 42] new_world))) = Some 42 \<and>
   data (heap (db (run (replicate (2 ^ 64 - 1) (OpBeginTx None) @
                         [OpBeginTx None, OpPut (2 ^ 64 - 1) ''k'' 7, OpCommit (2 ^ 64 - 1)])
                     (new_world :: (string, int) world))) !
         current (db (run (replicate (2 ^ 64 - 1) (OpBeginTx None) @
                         [OpBeginTx None, OpPut (2 ^ 64 - 1) ''k'' 7, OpCommit (2 ^ 64 - 1)])
                     (new_world :: (string, int) world)))) ''k''
     = Some \<lparr>vvalue = 7, writerTxID = 0\<rparr>"
proof -
  let ?w0 = "run (replicate (2 ^ 64 - 1) (OpBeginTx None)) (new_world :: (string, int) world)"
  have f: "fresh ?w0"
    by (rule fresh_run [OF fresh_new_world]) simp
  have n: "nextTxID (db ?w0) + 1 = 0"
    by (simp add: nextTxID_run new_world_def NewMVCCMap_def)
  have l: "length (txs ?w0) = 2 ^ 64 - 1"
    by (simp add: length_txs_run new_world_def)
  note wrap = wrapped_id_published [OF f n l]
  have ryow: "run [OpBeginTx None, OpPut 0 ''x'' 42] (new_world :: (string, int) world) =
     \<lparr>db = \<lparr>heap = [\<lparr>v_id = 0, data = Map.empty, refCount = 1\<rparr>], current = 0,
             nextTxID = 1, nextVersionID = 0,
             activeTxs = [(1, \<lparr>meta_id = 1, waitFor = 0\<rparr>)], versions = [0]\<rparr>,
        txs = [\<lparr>tx_id = 1, snapshot = 0,
                 writes = [(''x'', \<lparr>vvalue = 42, writerTxID = 1\<rparr>)],
                 readSet = {}, state = txActive, ctxErr = None\<rparr>]\<rparr>"
    by (simp add: op_defs)
  show ?thesis
    unfolding run_append ryow using wrap by (simp add: Get_def checkActive_def VersionCount_def)
qed

section \<open>The stores that runs produce\<close>




lemma length_heap_release [simp]: "length (heap (snd (release tx s))) = length (heap s)"
  by (simp add: release_def)

lemma length_heap_commit: "length (heap s) \<le> length (heap (snd (commit tx s)))"
  by (cases "commit tx s") (auto dest: commit_cases)

lemma tx_wf_fields:
  "writes tx' = writes tx \<Longrightarrow> tx_id tx' = tx_id tx \<Longrightarrow> tx_wf tx' = tx_wf tx"
  by (simp add: tx_wf_def)

lemma Get_fields [simp]:
  "writes (snd (Get tx k s)) = writes tx" "tx_id (snd (Get tx k s)) = tx_id tx"
  "snapshot (snd (Get tx k s)) = snapshot tx" "state (snd (Get tx k s)) = state tx"
  by (simp_all add: Get_def split: option.splits)

lemma ctx_done_fields [simp]:
  "writes (ctx_done e tx) = writes tx" "tx_id (ctx_done e tx) = tx_id tx"
  "snapshot (ctx_done e tx) = snapshot tx" "state (ctx_done e tx) = state tx"
  by (simp_all add: ctx_done_def split: option.splits)

lemma release_tx_fields [simp]:
  "writes (fst (release tx s)) = writes tx" "tx_id (fst (release tx s)) = tx_id tx"
  "snapshot (fst (release tx s)) = snapshot tx" "state (fst (release tx s)) = state tx"
  by (simp_all add: release_def)

lemma Rollback_tx_fields [simp]:
  "writes (fst (Rollback tx s)) = writes tx" "tx_id (fst (Rollback tx s)) = tx_id tx"
  "snapshot (fst (Rollback tx s)) = snapshot tx"
  by (simp_all add: Rollback_def)

lemma Commit_tx_fields [simp]:
  "writes (fst (snd (Commit tx s))) = writes tx" "tx_id (fst (snd (Commit tx s))) = tx_id tx"
  "snapshot (fst (snd (Commit tx s))) = snapshot tx"
  by (simp_all add: Commit_def Let_def case_prod_beta split: option.splits)

lemma Put_tx_fields [simp]:
  "tx_id (fst (snd (Put tx k v s))) = tx_id tx"
  "snapshot (fst (snd (Put tx k v s))) = snapshot tx"
  by (simp_all add: Put_def split: option.splits)























end
